theory Spec2Isabelle
  imports Complex_Main "HOL-Library.Sublist"
begin

section \<open>JavaScript strings\<close>

text \<open>
  A JavaScript string is a sequence of UTF-16 code units; \<open>length\<close>, \<open>indexOf\<close>,
  \<open>substring\<close> and the regular expressions of the sources (none has the \<open>u\<close> flag)
  all count code units. A code unit is modelled by its number.
\<close>

type_synonym code_unit = nat
type_synonym jsstring = "code_unit list"

text \<open>An ASCII literal of the sources, as code units.\<close>

definition js :: "string \<Rightarrow> jsstring" where
  "js s = map of_char s"

text \<open>
  The class \<open>\s\<close> of a JavaScript regular expression, which is also the set of
  characters that \<open>String.prototype.trim\<close> strips (WhiteSpace and LineTerminator).
\<close>

definition is_space :: "code_unit \<Rightarrow> bool" where
  "is_space c \<longleftrightarrow>
     c = 0x09 \<or> c = 0x0A \<or> c = 0x0B \<or> c = 0x0C \<or> c = 0x0D \<or> c = 0x20 \<or> c = 0xA0 \<or>
     c = 0x1680 \<or> (0x2000 \<le> c \<and> c \<le> 0x200A) \<or> c = 0x2028 \<or> c = 0x2029 \<or>
     c = 0x202F \<or> c = 0x205F \<or> c = 0x3000 \<or> c = 0xFEFF"

text \<open>\<open>s.trim()\<close>\<close>

definition trim :: "jsstring \<Rightarrow> jsstring" where
  "trim s = rev (dropWhile is_space (rev (dropWhile is_space s)))"

text \<open>\<open>s.replace(/\s+/g, ' ')\<close>: every maximal run of white space becomes one space.\<close>

function replace_ws :: "jsstring \<Rightarrow> jsstring" where
  "replace_ws [] = []"
| "replace_ws (c # cs) =
     (if is_space c then 0x20 # replace_ws (dropWhile is_space cs)
      else c # replace_ws cs)"
  by pat_completeness auto
termination
  by (relation "measure length") (auto simp: length_dropWhile_le less_Suc_eq_le)

text \<open>
  \<open>s.indexOf(pat)\<close>: the least index at which \<open>pat\<close> starts in \<open>s\<close>; \<open>None\<close> is the
  source's \<open>-1\<close>.
\<close>

fun indexOf :: "jsstring \<Rightarrow> jsstring \<Rightarrow> nat option" where
  "indexOf [] pat = (if pat = [] then Some 0 else None)"
| "indexOf (c # cs) pat =
     (if prefix pat (c # cs) then Some 0 else map_option Suc (indexOf cs pat))"

text \<open>Decimal rendering of a non-negative integer, as a template literal does it.\<close>

definition digit :: "nat \<Rightarrow> code_unit" where
  "digit d = 0x30 + d"

function show_nat :: "nat \<Rightarrow> jsstring" where
  "show_nat n = (if n < 10 then [digit n] else show_nat (n div 10) @ [digit (n mod 10)])"
  by pat_completeness auto
termination
  by (relation "measure id") auto

declare show_nat.simps [simp del]

section \<open>Text normalizer (arabic-utils)\<close>

text \<open>\<open>ARABIC_DIACRITICS\<close>: the class of U+064B .. U+065F and U+0670 (tashkeel).\<close>

definition ARABIC_DIACRITICS :: "code_unit \<Rightarrow> bool" where
  "ARABIC_DIACRITICS c \<longleftrightarrow> (0x064B \<le> c \<and> c \<le> 0x065F) \<or> c = 0x0670"

text \<open>
  \<open>ARABIC_NORMALIZATIONS\<close>: each entry is a character class and the character that
  replaces every member of it.
\<close>

definition ARABIC_NORMALIZATIONS :: "(code_unit list \<times> code_unit) list" where
  "ARABIC_NORMALIZATIONS =
     [([0x0622, 0x0623, 0x0625], 0x0627),
      ([0x0629], 0x0647),
      ([0x0649], 0x064A),
      ([0x0624], 0x0648),
      ([0x0626], 0x064A)]"

text \<open>\<open>text.replace(/[...]/g, r)\<close> for a character class.\<close>

definition replace_class :: "code_unit list \<times> code_unit \<Rightarrow> jsstring \<Rightarrow> jsstring" where
  "replace_class pr s = map (\<lambda>c. if c \<in> set (fst pr) then snd pr else c) s"

definition removeDiacritics :: "jsstring \<Rightarrow> jsstring" where
  "removeDiacritics s = filter (\<lambda>c. \<not> ARABIC_DIACRITICS c) s"

definition normalizeArabic :: "jsstring \<Rightarrow> jsstring" where
  "normalizeArabic s =
     trim (replace_ws (fold replace_class ARABIC_NORMALIZATIONS (removeDiacritics s)))"

text \<open>The test of the class U+0600 .. U+06FF against the text.\<close>

definition containsArabic :: "jsstring \<Rightarrow> bool" where
  "containsArabic s \<longleftrightarrow> list_ex (\<lambda>c. 0x0600 \<le> c \<and> c \<le> 0x06FF) s"

section \<open>Chunking (arabic-utils, \<open>splitIntoChunks\<close>)\<close>

text \<open>
  \<open>text.split(/\n\n+/)\<close>: the text is cut at every maximal run of two or more line
  feeds; a separator at the start or the end leaves an empty piece there, and the
  empty text gives one empty piece.
\<close>

function split_paragraphs :: "jsstring \<Rightarrow> jsstring list" where
  "split_paragraphs [] = [[]]"
| "split_paragraphs (c # cs) =
     (if c = 0x0A \<and> cs \<noteq> [] \<and> hd cs = 0x0A
      then [] # split_paragraphs (dropWhile (\<lambda>x. x = 0x0A) cs)
      else (case split_paragraphs cs of
              [] \<Rightarrow> [[c]]
            | p # ps \<Rightarrow> (c # p) # ps))"
  by pat_completeness auto
termination
  by (relation "measure length") (auto simp: length_dropWhile_le less_Suc_eq_le)

text \<open>
  \<open>paragraph.split(/(?<=[.!?])\s+/)\<close>: the paragraph is cut at every maximal run of
  white space that directly follows one of \<open>.\<close>, \<open>!\<close>, \<open>?\<close>. The first argument is
  the character before the current position (\<open>None\<close> at the start), which is what
  the look-behind reads.
\<close>

definition sentence_end :: "code_unit option \<Rightarrow> bool" where
  "sentence_end prev \<longleftrightarrow> prev = Some 0x2E \<or> prev = Some 0x21 \<or> prev = Some 0x3F"

function split_sentences_from :: "code_unit option \<Rightarrow> jsstring \<Rightarrow> jsstring list" where
  "split_sentences_from prev [] = [[]]"
| "split_sentences_from prev (c # cs) =
     (if is_space c \<and> sentence_end prev
      then [] # split_sentences_from (Some (last (c # takeWhile is_space cs)))
                  (dropWhile is_space cs)
      else (case split_sentences_from (Some c) cs of
              [] \<Rightarrow> [[c]]
            | p # ps \<Rightarrow> (c # p) # ps))"
  by pat_completeness auto
termination
  by (relation "measure (\<lambda>(prev, s). length s)")
     (auto simp: length_dropWhile_le less_Suc_eq_le)

definition split_sentences :: "jsstring \<Rightarrow> jsstring list" where
  "split_sentences p = split_sentences_from None p"

text \<open>The paragraph separator \<open>'\n\n'\<close>.\<close>

definition para_sep :: jsstring where
  "para_sep = [0x0A, 0x0A]"

text \<open>
  The body of the inner loop over sentences; the state is \<open>chunks\<close> and
  \<open>sentenceChunk\<close>.
\<close>

definition sentence_step ::
  "int \<Rightarrow> jsstring \<Rightarrow> jsstring list \<times> jsstring \<Rightarrow> jsstring list \<times> jsstring" where
  "sentence_step maxChunkSize sentence st =
     (case st of (chunks, sentenceChunk) \<Rightarrow>
        if int (length sentenceChunk + length sentence) > maxChunkSize
        then ((if sentenceChunk \<noteq> [] then chunks @ [trim sentenceChunk] else chunks), sentence)
        else (chunks, sentenceChunk @ (if sentenceChunk \<noteq> [] then [0x20] else []) @ sentence))"

text \<open>
  The body of the outer loop over paragraphs; the state is \<open>chunks\<close> and
  \<open>currentChunk\<close>.
\<close>

definition paragraph_step ::
  "int \<Rightarrow> jsstring \<Rightarrow> jsstring list \<times> jsstring \<Rightarrow> jsstring list \<times> jsstring" where
  "paragraph_step maxChunkSize paragraph st =
     (case st of (chunks, currentChunk) \<Rightarrow>
        if int (length currentChunk + length paragraph) > maxChunkSize
        then
          (let chunks1 = (if currentChunk \<noteq> [] then chunks @ [trim currentChunk] else chunks)
           in if int (length paragraph) > maxChunkSize
              then fold (sentence_step maxChunkSize) (split_sentences paragraph) (chunks1, [])
              else (chunks1, paragraph))
        else (chunks, currentChunk @ (if currentChunk \<noteq> [] then para_sep else []) @ paragraph))"

definition splitIntoChunks :: "jsstring \<Rightarrow> int \<Rightarrow> jsstring list" where
  "splitIntoChunks text maxChunkSize =
     (case fold (paragraph_step maxChunkSize) (split_paragraphs text) ([], []) of
        (chunks, currentChunk) \<Rightarrow>
          if currentChunk \<noteq> [] then chunks @ [trim currentChunk] else chunks)"

text \<open>
  The chunks joined again with the paragraph separator between consecutive
  chunks.
\<close>

fun join_paragraphs :: "jsstring list \<Rightarrow> jsstring" where
  "join_paragraphs [] = []"
| "join_paragraphs [c] = c"
| "join_paragraphs (c # d # cs) = c @ para_sep @ join_paragraphs (d # cs)"

text \<open>
  The running \<open>chunkOffset\<close> of \<open>processTranscript\<close>: the offset at which the
  orchestrator takes each chunk to start, after \<open>chunkOffset += chunk.length + 2\<close>
  for every chunk before it.
\<close>

fun chunk_offsets :: "nat \<Rightarrow> jsstring list \<Rightarrow> nat list" where
  "chunk_offsets off [] = []"
| "chunk_offsets off (c # cs) = off # chunk_offsets (off + length c + 2) cs"

text \<open>
  What \<open>if (currentChunk) chunks.push(currentChunk.trim())\<close> makes of a state of the
  loop over paragraphs.
\<close>

definition pushed :: "jsstring list \<times> jsstring \<Rightarrow> jsstring list" where
  "pushed st = (case st of (chunks, currentChunk) \<Rightarrow>
     if currentChunk \<noteq> [] then chunks @ [trim currentChunk] else chunks)"

text \<open>A string that is not empty and neither starts nor ends with white space.\<close>

definition trimmed :: "jsstring \<Rightarrow> bool" where
  "trimmed p \<longleftrightarrow> p \<noteq> [] \<and> \<not> is_space (hd p) \<and> \<not> is_space (last p)"

section \<open>Data model (types)\<close>

text \<open>
  A JavaScript \<open>number\<close> that holds a score (similarity, confidence, threshold) is
  a real number; one that holds an index, an offset or a key component is an
  integer. The fields of the database rows that the pipeline never reads are
  left out.
\<close>

datatype kind = quran | hadith

record QuranVerse =
  surah_number :: nat
  ayah_number :: nat
  verse_arabic_text :: jsstring
  verse_english_text :: jsstring

record Hadith =
  collection :: jsstring
  book_number :: nat
  hadith_number :: nat
  hadith_arabic_text :: jsstring
  hadith_english_text :: jsstring

text \<open>
  \<open>MatchResult.reference\<close> is \<open>QuranVerse | Hadith\<close> and \<open>MatchResult.type\<close> tells
  which; \<open>searchAll\<close>, the only producer, always sets the two together, so the
  tag of the union is the \<open>type\<close> field.
\<close>

datatype corpus_entry = Verse QuranVerse | Tradition Hadith

record MatchResult =
  reference :: corpus_entry
  similarity :: real

definition mtype :: "MatchResult \<Rightarrow> kind" where
  "mtype m = (case reference m of Verse v \<Rightarrow> quran | Tradition h \<Rightarrow> hadith)"

record DetectedReference =
  d_type :: kind
  original_text :: jsstring
  corrected_text :: jsstring
  start_index :: int
  end_index :: int
  d_context :: jsstring

record VerifiedMatch =
  detected :: DetectedReference
  vmatch :: "MatchResult option"
  confidence :: real
  reference_id :: "jsstring option"

record Annotation =
  a_id :: jsstring
  a_transcript_id :: jsstring
  a_type :: kind
  a_reference_id :: jsstring
  a_original_text :: jsstring
  a_corrected_text :: jsstring
  a_confidence :: real
  a_start_index :: int
  a_end_index :: int

record Stats =
  total_detected :: nat
  quran_matches :: nat
  hadith_matches :: nat
  low_confidence_skipped :: nat

record ProcessingResult =
  annotated_text :: jsstring
  annotations :: "Annotation list"
  stats :: Stats

text \<open>The object that \<open>verifyMatch\<close> returns.\<close>

record Verification =
  match_index :: "int option"
  r_confidence :: real
  reasoning :: jsstring

section \<open>External collaborators\<close>

text \<open>What a rejected promise or a \<open>throw\<close> carries.\<close>

datatype error = ServiceError jsstring | SyntaxError | TypeError

datatype status = pending | processing | complete | failed

text \<open>The writes that \<open>processTranscript\<close> sends to the persistence collaborator.\<close>

datatype db_write =
    UpdateStatus jsstring status
  | UpdateAnnotated jsstring jsstring
  | InsertAnnotations "Annotation list"

text \<open>
  Everything the pipeline awaits from outside, as functions of what the code
  sends:
  \<^item> \<open>search_quran_verses\<close>, \<open>search_hadith\<close>: the embedding call and the vector
    search of \<open>searchQuranVerses\<close> and \<open>searchHadith\<close> (query text, threshold,
    limit), with the similarity of each row;
  \<^item> \<open>detection_model\<close>: the chat completion of \<open>detectReferences\<close>, giving the
    message content (\<open>None\<close> is \<open>null\<close>);
  \<^item> \<open>parse_detections\<close>: \<open>JSON.parse(content).detections || []\<close>;
  \<^item> \<open>verification_model\<close>: the chat completion of \<open>verifyMatch\<close>; its prompt is
    built from the detection and the matches only, so the reply is a function of
    these two;
  \<^item> \<open>parse_verification\<close>: \<open>JSON.parse(content)\<close> read at the declared return type;
  \<^item> \<open>db\<close>: a write to the database, \<open>Some e\<close> when it throws;
  \<^item> \<open>uuidv4\<close>: the identifier drawn for the n-th annotation of the run;
  \<^item> \<open>toLowerCase\<close>: \<open>String.prototype.toLowerCase\<close> of the platform.
\<close>

record services =
  search_quran_verses :: "jsstring \<Rightarrow> real \<Rightarrow> nat \<Rightarrow> error + (QuranVerse \<times> real) list"
  search_hadith :: "jsstring \<Rightarrow> real \<Rightarrow> nat \<Rightarrow> error + (Hadith \<times> real) list"
  detection_model :: "jsstring \<Rightarrow> error + jsstring option"
  parse_detections :: "jsstring \<Rightarrow> error + DetectedReference list"
  verification_model :: "DetectedReference \<Rightarrow> MatchResult list \<Rightarrow> error + jsstring option"
  parse_verification :: "jsstring \<Rightarrow> error + Verification"
  db :: "db_write \<Rightarrow> error option"
  uuidv4 :: "nat \<Rightarrow> jsstring"
  toLowerCase :: "jsstring \<Rightarrow> jsstring"

text \<open>\<open>!content\<close> for a value of type \<open>string | null\<close>.\<close>

definition falsy :: "jsstring option \<Rightarrow> bool" where
  "falsy c \<longleftrightarrow> c = None \<or> c = Some []"

section \<open>Reference store (rag, \<open>searchAll\<close>)\<close>

definition searchAll :: "services \<Rightarrow> jsstring \<Rightarrow> real \<Rightarrow> nat \<Rightarrow> error + MatchResult list" where
  "searchAll svc queryText threshold limit =
     (case search_quran_verses svc queryText threshold limit of
        Inl e \<Rightarrow> Inl e
      | Inr quranResults \<Rightarrow>
         (case search_hadith svc queryText threshold limit of
            Inl e \<Rightarrow> Inl e
          | Inr hadithResults \<Rightarrow>
              Inr (take limit
                (sort_key (\<lambda>m. - similarity m)
                   (map (\<lambda>(v, s). \<lparr>reference = Verse v, similarity = s\<rparr>) quranResults @
                    map (\<lambda>(h, s). \<lparr>reference = Tradition h, similarity = s\<rparr>) hadithResults)))))"

section \<open>Matcher and verifier (processor)\<close>

definition CONFIDENCE_AUTO_ANNOTATE :: real where
  "CONFIDENCE_AUTO_ANNOTATE = 0.5"

definition createReferenceId :: "MatchResult \<Rightarrow> jsstring" where
  "createReferenceId m =
     (case reference m of
        Verse verse \<Rightarrow> show_nat (surah_number verse) @ js '':'' @ show_nat (ayah_number verse)
      | Tradition h \<Rightarrow>
          collection h @ js '':'' @ show_nat (book_number h) @ js '':'' @
          show_nat (hadith_number h))"

text \<open>
  \<open>verifyMatch\<close>: one call of the verification model; a failed call, an empty
  content and a content that does not parse all give \<open>match_index: null,
  confidence: 0\<close>, and otherwise the parsed reply is returned as it is.
\<close>

definition verifyMatch :: "services \<Rightarrow> DetectedReference \<Rightarrow> MatchResult list \<Rightarrow> Verification" where
  "verifyMatch svc detection matches =
     (case verification_model svc detection matches of
        Inl e \<Rightarrow> \<lparr>match_index = None, r_confidence = 0, reasoning = js ''Error''\<rparr>
      | Inr content \<Rightarrow>
          if falsy content
          then \<lparr>match_index = None, r_confidence = 0, reasoning = js ''No response''\<rparr>
          else (case parse_verification svc (the content) of
                  Inl e \<Rightarrow> \<lparr>match_index = None, r_confidence = 0, reasoning = js ''Error''\<rparr>
                | Inr r \<Rightarrow> r))"

text \<open>The external calls of one \<open>matchAndVerify\<close>, in the order they are made.\<close>

datatype ext_call =
    CallSearchAll jsstring real nat
  | CallVerification DetectedReference "MatchResult list"

definition no_match :: "DetectedReference \<Rightarrow> VerifiedMatch" where
  "no_match detection =
     \<lparr>detected = detection, vmatch = None, confidence = 0, reference_id = None\<rparr>"

text \<open>
  The \<open>try\<close> block of \<open>matchAndVerify\<close>, with the calls it made. Reading
  \<open>matches[match_index]\<close> out of range gives \<open>undefined\<close>, and \<open>createReferenceId\<close>
  then throws a TypeError on \<open>match.type\<close>.
\<close>

definition matchAndVerify_try ::
  "services \<Rightarrow> DetectedReference \<Rightarrow> (error + VerifiedMatch) \<times> ext_call list" where
  "matchAndVerify_try svc detection =
     (let searchText = corrected_text detection @ js '' '' @ d_context detection
      in case searchAll svc searchText 0.3 5 of
           Inl e \<Rightarrow> (Inl e, [CallSearchAll searchText 0.3 5])
         | Inr matches \<Rightarrow>
             if length matches = 0
             then (Inr (no_match detection), [CallSearchAll searchText 0.3 5])
             else
               (let verificationResult = verifyMatch svc detection matches;
                    calls = [CallSearchAll searchText 0.3 5, CallVerification detection matches]
                in case match_index verificationResult of
                     None \<Rightarrow>
                       (Inr \<lparr>detected = detection, vmatch = None,
                             confidence = r_confidence verificationResult,
                             reference_id = None\<rparr>, calls)
                   | Some i \<Rightarrow>
                       if 0 \<le> i \<and> nat i < length matches
                       then (Inr \<lparr>detected = detection, vmatch = Some (matches ! nat i),
                                  confidence = r_confidence verificationResult,
                                  reference_id = Some (createReferenceId (matches ! nat i))\<rparr>,
                             calls)
                       else (Inl TypeError, calls)))"

text \<open>\<open>matchAndVerify\<close> with its calls: the \<open>catch\<close> turns every error into no match.\<close>

definition matchAndVerify_run ::
  "services \<Rightarrow> DetectedReference \<Rightarrow> VerifiedMatch \<times> ext_call list" where
  "matchAndVerify_run svc detection =
     (case matchAndVerify_try svc detection of
        (Inl e, calls) \<Rightarrow> (no_match detection, calls)
      | (Inr verified, calls) \<Rightarrow> (verified, calls))"

definition matchAndVerify :: "services \<Rightarrow> DetectedReference \<Rightarrow> VerifiedMatch" where
  "matchAndVerify svc detection = fst (matchAndVerify_run svc detection)"

section \<open>Annotation markers (processor)\<close>

definition createAnnotationMarkdown :: "VerifiedMatch \<Rightarrow> jsstring" where
  "createAnnotationMarkdown verified =
     (case vmatch verified of
        None \<Rightarrow> original_text (detected verified)
      | Some m \<Rightarrow>
          if falsy (reference_id verified) then original_text (detected verified)
          else (let originalText = original_text (detected verified)
                in if mtype m = quran
                   then js ''[[quran:'' @ the (reference_id verified) @ js ''|'' @ originalText @ js '']]''
                   else js ''[[hadith:'' @ the (reference_id verified) @ js ''|'' @ originalText @ js '']]''))"

text \<open>
  The regular expression \<open>/\[\[TAG:([^\|]+)\|([^\]]+)\]\]/\<close> tried at the start of
  \<open>s\<close>. Both groups are greedy runs over a negated class that must be followed by
  a character outside the class, so only the maximal run can match: the first
  group is the non-empty run up to the next \<open>|\<close>, the second the non-empty run
  up to the next \<open>]\<close>, which must start \<open>]]\<close>.
\<close>

definition match_marker_at :: "jsstring \<Rightarrow> jsstring \<Rightarrow> (jsstring \<times> jsstring) option" where
  "match_marker_at tag s =
     (let opening = js ''[['' @ tag @ js '':''
      in if prefix opening s
         then (let r1 = drop (length opening) s;
                   g1 = takeWhile (\<lambda>c. c \<noteq> 0x7C) r1;
                   r2 = dropWhile (\<lambda>c. c \<noteq> 0x7C) r1
               in if g1 = [] \<or> r2 = [] then None
                  else (let r3 = tl r2;
                            g2 = takeWhile (\<lambda>c. c \<noteq> 0x5D) r3;
                            r4 = dropWhile (\<lambda>c. c \<noteq> 0x5D) r3
                        in if g2 = [] \<or> \<not> prefix (js '']]'') r4 then None
                           else Some (g1, g2)))
         else None)"

text \<open>\<open>markdown.match(re)\<close> without the \<open>g\<close> flag: the leftmost match.\<close>

fun match_marker :: "jsstring \<Rightarrow> jsstring \<Rightarrow> (jsstring \<times> jsstring) option" where
  "match_marker tag [] = match_marker_at tag []"
| "match_marker tag (c # cs) =
     (case match_marker_at tag (c # cs) of
        Some g \<Rightarrow> Some g
      | None \<Rightarrow> match_marker tag cs)"

record ParsedAnnotation =
  p_type :: kind
  p_reference :: jsstring
  p_display :: jsstring

definition parseAnnotation :: "jsstring \<Rightarrow> ParsedAnnotation option" where
  "parseAnnotation markdown =
     (case match_marker (js ''quran'') markdown of
        Some quranMatch \<Rightarrow>
          Some \<lparr>p_type = quran, p_reference = fst quranMatch, p_display = snd quranMatch\<rparr>
      | None \<Rightarrow>
         (case match_marker (js ''hadith'') markdown of
            Some hadithMatch \<Rightarrow>
              Some \<lparr>p_type = hadith, p_reference = fst hadithMatch, p_display = snd hadithMatch\<rparr>
          | None \<Rightarrow> None))"

section \<open>Pipeline orchestrator (processor, \<open>processTranscript\<close>)\<close>

text \<open>
  \<open>detectReferences\<close>: a failed call, an empty content and a content that does not
  parse all give no detection.
\<close>

definition detectReferences :: "services \<Rightarrow> jsstring \<Rightarrow> DetectedReference list" where
  "detectReferences svc text =
     (case detection_model svc text of
        Inl e \<Rightarrow> []
      | Inr content \<Rightarrow>
          if falsy content then []
          else (case parse_detections svc (the content) of
                  Inl e \<Rightarrow> []
                | Inr ds \<Rightarrow> ds))"

text \<open>
  The body of the loop over chunks; the state is \<open>allDetections\<close> and
  \<open>chunkOffset\<close>.
\<close>

definition rebase :: "nat \<Rightarrow> DetectedReference \<Rightarrow> DetectedReference" where
  "rebase chunkOffset detection =
     detection\<lparr>start_index := start_index detection + int chunkOffset,
               end_index := end_index detection + int chunkOffset\<rparr>"

definition detect_step ::
  "services \<Rightarrow> jsstring \<Rightarrow> DetectedReference list \<times> nat \<Rightarrow> DetectedReference list \<times> nat" where
  "detect_step svc chunk st =
     (case st of (allDetections, chunkOffset) \<Rightarrow>
        (allDetections @ map (rebase chunkOffset) (detectReferences svc chunk),
         chunkOffset + length chunk + 2))"

text \<open>
  \<open>sortedMatches\<close>: the filter on confidence and match, then the (stable) sort by
  descending \<open>start_index\<close>.
\<close>

definition sortedMatches :: "VerifiedMatch list \<Rightarrow> VerifiedMatch list" where
  "sortedMatches verifiedMatches =
     sort_key (\<lambda>m. - start_index (detected m))
       (filter (\<lambda>m. confidence m \<ge> CONFIDENCE_AUTO_ANNOTATE \<and> vmatch m \<noteq> None) verifiedMatches)"

definition make_annotation ::
  "services \<Rightarrow> jsstring \<Rightarrow> nat \<Rightarrow> VerifiedMatch \<Rightarrow> MatchResult \<Rightarrow> jsstring \<Rightarrow> Annotation" where
  "make_annotation svc transcriptId n verified m rid =
     \<lparr>a_id = uuidv4 svc n,
      a_transcript_id = transcriptId,
      a_type = mtype m,
      a_reference_id = rid,
      a_original_text = original_text (detected verified),
      a_corrected_text = corrected_text (detected verified),
      a_confidence = confidence verified,
      a_start_index = start_index (detected verified),
      a_end_index = end_index (detected verified)\<rparr>"

definition count_match :: "kind \<Rightarrow> Stats \<Rightarrow> Stats" where
  "count_match k s =
     (if k = quran then s\<lparr>quran_matches := quran_matches s + 1\<rparr>
      else s\<lparr>hadith_matches := hadith_matches s + 1\<rparr>)"

text \<open>
  The body of the loop over \<open>sortedMatches\<close>; the state is \<open>annotations\<close>, \<open>stats\<close>
  and \<open>annotatedText\<close>.
\<close>

definition annotate_step ::
  "services \<Rightarrow> jsstring \<Rightarrow> VerifiedMatch \<Rightarrow> ProcessingResult \<Rightarrow> ProcessingResult" where
  "annotate_step svc transcriptId verified st =
     (case vmatch verified of
        None \<Rightarrow> st
      | Some m \<Rightarrow>
          if falsy (reference_id verified) then st
          else
            (let annotation =
                   make_annotation svc transcriptId (length (annotations st)) verified m
                     (the (reference_id verified));
                 st1 = st\<lparr>annotations := annotations st @ [annotation],
                          stats := count_match (mtype m) (stats st)\<rparr>;
                 originalText = original_text (detected verified);
                 annotationFormat = createAnnotationMarkdown verified
             in case indexOf (toLowerCase svc (annotated_text st)) (toLowerCase svc originalText) of
                  None \<Rightarrow> st1
                | Some actualIndex \<Rightarrow>
                    st1\<lparr>annotated_text :=
                           take actualIndex (annotated_text st) @ annotationFormat @
                           drop (actualIndex + length originalText) (annotated_text st)\<rparr>))"

text \<open>Step 4 of \<open>processTranscript\<close> and the count of skipped matches.\<close>

definition annotate ::
  "services \<Rightarrow> jsstring \<Rightarrow> jsstring \<Rightarrow> VerifiedMatch list \<Rightarrow> ProcessingResult" where
  "annotate svc transcriptId text verifiedMatches =
     (let st = fold (annotate_step svc transcriptId) (sortedMatches verifiedMatches)
                 \<lparr>annotated_text = text, annotations = [],
                  stats = \<lparr>total_detected = length verifiedMatches, quran_matches = 0,
                           hadith_matches = 0, low_confidence_skipped = 0\<rparr>\<rparr>
      in st\<lparr>stats := (stats st)\<lparr>low_confidence_skipped :=
              length (filter (\<lambda>m. confidence m < CONFIDENCE_AUTO_ANNOTATE) verifiedMatches)\<rparr>\<rparr>)"

text \<open>Steps 1 to 3: chunking, detection with rebased offsets, verification.\<close>

definition detect_all :: "services \<Rightarrow> jsstring \<Rightarrow> DetectedReference list" where
  "detect_all svc text = fst (fold (detect_step svc) (splitIntoChunks text 2000) ([], 0))"

definition verify_all :: "services \<Rightarrow> DetectedReference list \<Rightarrow> VerifiedMatch list" where
  "verify_all svc allDetections = map (matchAndVerify svc) allDetections"

text \<open>
  The result of \<open>processTranscript\<close> (the value of the promise or the error it
  rejects with) and the database writes it attempted, in order. The optional
  \<open>onProgress\<close> callback only reports progress and is left out.
\<close>

record run =
  outcome :: "error + ProcessingResult"
  writes :: "db_write list"

text \<open>The \<open>catch\<close> block: the status \<open>error\<close> is written and the error thrown again.\<close>

definition fail_run :: "services \<Rightarrow> jsstring \<Rightarrow> error \<Rightarrow> db_write list \<Rightarrow> run" where
  "fail_run svc transcriptId e ws =
     (case db svc (UpdateStatus transcriptId failed) of
        Some e2 \<Rightarrow> \<lparr>outcome = Inl e2, writes = ws @ [UpdateStatus transcriptId failed]\<rparr>
      | None \<Rightarrow> \<lparr>outcome = Inl e, writes = ws @ [UpdateStatus transcriptId failed]\<rparr>)"

definition processTranscript :: "services \<Rightarrow> jsstring \<Rightarrow> jsstring \<Rightarrow> run" where
  "processTranscript svc transcriptId text =
     (let w1 = UpdateStatus transcriptId processing
      in case db svc w1 of
           Some e \<Rightarrow> fail_run svc transcriptId e [w1]
         | None \<Rightarrow>
            (let verifiedMatches = verify_all svc (detect_all svc text);
                 r = annotate svc transcriptId text verifiedMatches;
                 w2 = UpdateAnnotated transcriptId (annotated_text r)
             in case db svc w2 of
                  Some e \<Rightarrow> fail_run svc transcriptId e [w1, w2]
                | None \<Rightarrow>
                    if length (annotations r) > 0
                    then (let w3 = InsertAnnotations (annotations r)
                          in case db svc w3 of
                               Some e \<Rightarrow> fail_run svc transcriptId e [w1, w2, w3]
                             | None \<Rightarrow> \<lparr>outcome = Inr r, writes = [w1, w2, w3]\<rparr>)
                    else \<lparr>outcome = Inr r, writes = [w1, w2]\<rparr>))"

text \<open>
  The failures of one \<open>matchAndVerify\<close>: the search rejects (embedding service or
  vector query), or, with at least one result, the verification call rejects,
  gives no content, gives a content that does not parse, or gives an index
  outside the results.
\<close>

definition matching_fails :: "services \<Rightarrow> DetectedReference \<Rightarrow> bool" where
  "matching_fails svc d =
     (case searchAll svc (corrected_text d @ js '' '' @ d_context d) 0.3 5 of
        Inl e \<Rightarrow> True
      | Inr matches \<Rightarrow>
          matches \<noteq> [] \<and>
          (case verification_model svc d matches of
             Inl e \<Rightarrow> True
           | Inr content \<Rightarrow>
               falsy content \<or>
               (case parse_verification svc (the content) of
                  Inl e \<Rightarrow> True
                | Inr r \<Rightarrow>
                   (case match_index r of
                      None \<Rightarrow> False
                    | Some i \<Rightarrow> i < 0 \<or> int (length matches) \<le> i))))"

text \<open>
  The matches for which the loop body goes past its first line
  (\<open>if (!verified.match || !verified.reference_id) continue\<close>).
\<close>

definition has_reference :: "VerifiedMatch \<Rightarrow> bool" where
  "has_reference v \<longleftrightarrow> vmatch v \<noteq> None \<and> \<not> falsy (reference_id v)"


text \<open>
  The state of the placement loop of a run when it reaches the k-th match of
  \<open>sortedMatches\<close>: the loop body applied to the matches before it.
\<close>

definition placement_state ::
  "services \<Rightarrow> jsstring \<Rightarrow> jsstring \<Rightarrow> VerifiedMatch list \<Rightarrow> nat \<Rightarrow> ProcessingResult" where
  "placement_state svc transcriptId text verifiedMatches k =
     fold (annotate_step svc transcriptId) (take k (sortedMatches verifiedMatches))
       \<lparr>annotated_text = text, annotations = [],
        stats = \<lparr>total_detected = length verifiedMatches, quran_matches = 0,
                 hadith_matches = 0, low_confidence_skipped = 0\<rparr>\<rparr>"

section \<open>Example runs\<close>

text \<open>
  Concrete collaborators for the scenarios of the specification. The document is
  Scenario A's; the detector reports the quotation three characters too far to
  the right (12 to 37 instead of 9 to 34).
\<close>

definition ascii_lower :: "jsstring \<Rightarrow> jsstring" where
  "ascii_lower s = map (\<lambda>c. if 0x41 \<le> c \<and> c \<le> 0x5A then c + 0x20 else c) s"

definition verse_2_255 :: QuranVerse where
  "verse_2_255 =
     \<lparr>surah_number = 2, ayah_number = 255, verse_arabic_text = [],
      verse_english_text = js ''Allah - there is no deity except Him''\<rparr>"

definition verse_3_2 :: QuranVerse where
  "verse_3_2 =
     \<lparr>surah_number = 3, ayah_number = 2, verse_arabic_text = [],
      verse_english_text = js ''Allah - there is no deity except Him, the Ever-Living''\<rparr>"

definition bukhari_1_1 :: Hadith where
  "bukhari_1_1 =
     \<lparr>collection = js ''bukhari'', book_number = 1, hadith_number = 1,
      hadith_arabic_text = [],
      hadith_english_text = js ''Actions are judged by intentions''\<rparr>"

definition ex_text :: jsstring where
  "ex_text = js ''He said, Allahu la ilaha illa huwa.''"

definition ex_detection :: DetectedReference where
  "ex_detection =
     \<lparr>d_type = quran, original_text = js ''Allahu la ilaha illa huwa'',
      corrected_text = js ''Allahu la ilaha illa huwa'', start_index = 12, end_index = 37,
      d_context = js ''Ayat al-Kursi''\<rparr>"

text \<open>A detection whose literal text is not in the document (one letter is missing).\<close>

definition ex_misquoted :: DetectedReference where
  "ex_misquoted = ex_detection\<lparr>original_text := js ''Allahu la ilaha ila huwa''\<rparr>"

definition ex_match :: MatchResult where
  "ex_match = \<lparr>reference = Verse verse_2_255, similarity = 0.8\<rparr>"

definition ex_verified :: VerifiedMatch where
  "ex_verified =
     \<lparr>detected = ex_detection, vmatch = Some ex_match, confidence = 0.8,
      reference_id = Some (js ''2:255'')\<rparr>"

text \<open>
  Every service answers; the store returns verse 2:255 with similarity 0.8 and
  the verification model picks index 0 with confidence 0.8.
\<close>

definition ex_svc :: services where
  "ex_svc =
     \<lparr>search_quran_verses = (\<lambda>q th lim. Inr [(verse_2_255, 0.8)]),
      search_hadith = (\<lambda>q th lim. Inr []),
      detection_model = (\<lambda>t. Inr (Some (js ''{}''))),
      parse_detections = (\<lambda>c. Inr [ex_detection]),
      verification_model = (\<lambda>d ms. Inr (Some (js ''{}''))),
      parse_verification =
        (\<lambda>c. Inr \<lparr>match_index = Some 0, r_confidence = 0.8, reasoning = []\<rparr>),
      db = (\<lambda>w. None),
      uuidv4 = (\<lambda>n. show_nat n),
      toLowerCase = ascii_lower\<rparr>"

text \<open>The same, but the detector reports the misquoted literal text.\<close>

definition svc_misquoted :: services where
  "svc_misquoted = ex_svc\<lparr>parse_detections := (\<lambda>c. Inr [ex_misquoted])\<rparr>"

text \<open>The same as \<open>ex_svc\<close>, but the verification model answers that no entry is right.\<close>

definition svc_reject :: services where
  "svc_reject =
     ex_svc\<lparr>parse_verification :=
       (\<lambda>c. Inr \<lparr>match_index = None, r_confidence = 0.9, reasoning = []\<rparr>)\<rparr>"

text \<open>
  Scenario D: the two best similarities are 0.52 and 0.50, and the verification
  model picks index 1 with a confidence of its own, 0.9.
\<close>

definition svc_D :: services where
  "svc_D =
     ex_svc\<lparr>search_quran_verses := (\<lambda>q th lim. Inr [(verse_2_255, 0.52), (verse_3_2, 0.50)]),
            parse_verification :=
              (\<lambda>c. Inr \<lparr>match_index = Some 1, r_confidence = 0.9, reasoning = []\<rparr>)\<rparr>"

text \<open>
  Scenario E: the embedding service is down for the query of one candidate
  (the one whose context is \<open>down\<close>) and up for the others; the detector
  reports that candidate and Scenario A's.
\<close>

definition ex_unlucky :: DetectedReference where
  "ex_unlucky = ex_detection\<lparr>d_context := js ''down''\<rparr>"

definition svc_E :: services where
  "svc_E =
     ex_svc\<lparr>parse_detections := (\<lambda>c. Inr [ex_unlucky, ex_detection]),
            search_quran_verses :=
              (\<lambda>q th lim. if q = js ''Allahu la ilaha illa huwa down''
                           then Inl (ServiceError (js ''DependencyUnavailable''))
                           else Inr [(verse_2_255, 0.8)])\<rparr>"

text \<open>A verified tradition, for the marker syntax.\<close>

definition ex_verified_hadith :: VerifiedMatch where
  "ex_verified_hadith =
     \<lparr>detected = ex_detection\<lparr>d_type := hadith, original_text := js ''actions are by intentions''\<rparr>,
      vmatch = Some \<lparr>reference = Tradition bukhari_1_1, similarity = 0.7\<rparr>,
      confidence = 0.7,
      reference_id = Some (js ''bukhari:1:1'')\<rparr>"

text \<open>The same match with a label that has one closing bracket in it.\<close>

definition ex_verified_bracket :: VerifiedMatch where
  "ex_verified_bracket =
     ex_verified\<lparr>detected := ex_detection\<lparr>original_text := js ''Allahu [sic] la ilaha''\<rparr>\<rparr>"

text \<open>What the run on Scenario A's document gives with \<open>ex_svc\<close>.\<close>

definition ex_annotation :: Annotation where
  "ex_annotation =
     \<lparr>a_id = js ''0'', a_transcript_id = js ''t1'', a_type = quran,
      a_reference_id = js ''2:255'',
      a_original_text = js ''Allahu la ilaha illa huwa'',
      a_corrected_text = js ''Allahu la ilaha illa huwa'',
      a_confidence = 0.8, a_start_index = 12, a_end_index = 37\<rparr>"

definition ex_result :: ProcessingResult where
  "ex_result =
     \<lparr>annotated_text = js ''He said, [[quran:2:255|Allahu la ilaha illa huwa]].'',
      annotations = [ex_annotation],
      stats = \<lparr>total_detected = 1, quran_matches = 1, hadith_matches = 0,
               low_confidence_skipped = 0\<rparr>\<rparr>"

text \<open>The run with \<open>svc_misquoted\<close>: the state of the loop at its only match, and the result.\<close>

definition ex_verified_misquoted :: VerifiedMatch where
  "ex_verified_misquoted = ex_verified\<lparr>detected := ex_misquoted\<rparr>"

definition ex_annotation_misquoted :: Annotation where
  "ex_annotation_misquoted = ex_annotation\<lparr>a_original_text := js ''Allahu la ilaha ila huwa''\<rparr>"

definition ex_state :: ProcessingResult where
  "ex_state = \<lparr>annotated_text = ex_text, annotations = [],
      stats = \<lparr>total_detected = 1, quran_matches = 0, hadith_matches = 0,
               low_confidence_skipped = 0\<rparr>\<rparr>"

definition ex_result_misquoted :: ProcessingResult where
  "ex_result_misquoted =
     \<lparr>annotated_text = ex_text, annotations = [ex_annotation_misquoted],
      stats = \<lparr>total_detected = 1, quran_matches = 1, hadith_matches = 0,
               low_confidence_skipped = 0\<rparr>\<rparr>"


text \<open>Three short paragraphs, and a text with three line feeds between two letters.\<close>

definition ex_paragraphs :: jsstring where
  "ex_paragraphs = js ''ab'' @ para_sep @ js ''cd'' @ para_sep @ js ''ef''"

definition ex_three_newlines :: jsstring where
  "ex_three_newlines = [0x78, 0x0A, 0x0A, 0x0A, 0x79]"

section \<open>Normalizer: theorems\<close>

lemma replace_class_id:
  "\<forall>c \<in> set s. c \<notin> set (fst pr) \<Longrightarrow> replace_class pr s = s"
  by (induction s) (auto simp: replace_class_def)

lemma fold_replace_class_non_arabic:
  assumes "\<not> containsArabic s"
  shows "fold replace_class ARABIC_NORMALIZATIONS s = s"
proof -
  have "\<forall>pr \<in> set ARABIC_NORMALIZATIONS. replace_class pr s = s"
  proof
    fix pr assume pr: "pr \<in> set ARABIC_NORMALIZATIONS"
    have "\<forall>c \<in> set s. c \<notin> set (fst pr)"
      using assms pr
      by (auto simp: containsArabic_def list_ex_iff ARABIC_NORMALIZATIONS_def)
    then show "replace_class pr s = s" by (rule replace_class_id)
  qed
  then show ?thesis
    by (simp add: ARABIC_NORMALIZATIONS_def)
qed

lemma removeDiacritics_non_arabic:
  assumes "\<not> containsArabic s"
  shows "removeDiacritics s = s"
  unfolding removeDiacritics_def
proof (rule filter_True)
  show "\<forall>c \<in> set s. \<not> ARABIC_DIACRITICS c"
    using assms by (auto simp: containsArabic_def list_ex_iff ARABIC_DIACRITICS_def)
qed

text \<open>
  C9 (as the code has it): \<open>normalizeArabic\<close> is a total function, and on an input
  without Arabic characters it does exactly the white-space clean-up: every run
  of white space becomes one space and the ends are trimmed. No character other
  than white space is changed.
\<close>

theorem normalizeArabic_non_arabic:
  "\<not> containsArabic x \<Longrightarrow> normalizeArabic x = trim (replace_ws x)"
  by (simp add: normalizeArabic_def removeDiacritics_non_arabic fold_replace_class_non_arabic)

lemmas normalizer_defs = normalizeArabic_def js_def removeDiacritics_def ARABIC_DIACRITICS_def
  ARABIC_NORMALIZATIONS_def replace_class_def trim_def is_space_def containsArabic_def

text \<open>The theorem of C9 at the input \<open>a  b\<close> (two spaces), which becomes \<open>a b\<close>.\<close>

theorem normalizeArabic_non_arabic_witness:
  "\<not> containsArabic (js ''a  b'') \<and> normalizeArabic (js ''a  b'') = js ''a b''"
proof -
  have h: "\<not> containsArabic (js ''a  b'')"
    by (simp add: js_def containsArabic_def)
  have "trim (replace_ws (js ''a  b'')) = js ''a b''"
    by (simp add: js_def trim_def is_space_def)
  with h normalizeArabic_non_arabic [OF h] show ?thesis by simp
qed

text \<open>
  C9 as stated fails: \<open>a  b\<close> has no Arabic character and is not returned
  unchanged, since its two spaces are collapsed into one.
\<close>

theorem normalizeArabic_not_identity:
  "\<not> containsArabic (js ''a  b'') \<and> normalizeArabic (js ''a  b'') \<noteq> js ''a  b''"
  by (simp add: normalizer_defs)

section \<open>Annotation markers: theorems\<close>

lemma js_bar: "js ''|'' = [0x7C]" by (simp add: js_def)
lemma js_close: "js '']]'' = [0x5D, 0x5D]" by (simp add: js_def)

lemma takeWhile_run: "\<forall>x \<in> set xs. P x \<Longrightarrow> \<not> P y \<Longrightarrow> takeWhile P (xs @ y # ys) = xs"
  by (induction xs) auto

lemma dropWhile_run: "\<forall>x \<in> set xs. P x \<Longrightarrow> \<not> P y \<Longrightarrow> dropWhile P (xs @ y # ys) = y # ys"
  by (induction xs) auto

lemma match_marker_at_marker:
  assumes "key \<noteq> []" "0x7C \<notin> set key" "label \<noteq> []" "0x5D \<notin> set label"
  shows "match_marker_at tag (js ''[['' @ tag @ js '':'' @ key @ js ''|'' @ label @ js '']]'')
         = Some (key, label)"
proof -
  let ?opening = "js ''[['' @ tag @ js '':''"
  let ?r1 = "key @ 0x7C # label @ [0x5D, 0x5D]"
  have s: "js ''[['' @ tag @ js '':'' @ key @ js ''|'' @ label @ js '']]'' = ?opening @ ?r1"
    by (simp add: js_bar js_close)
  have k: "\<forall>x \<in> set key. x \<noteq> 0x7C" using assms(2) by auto
  have l: "\<forall>x \<in> set label. x \<noteq> 0x5D" using assms(4) by auto
  have g1: "takeWhile (\<lambda>c. c \<noteq> 0x7C) ?r1 = key"
    using k by (intro takeWhile_run) auto
  have r2: "dropWhile (\<lambda>c. c \<noteq> 0x7C) ?r1 = 0x7C # label @ [0x5D, 0x5D]"
    using k by (intro dropWhile_run) auto
  have g2: "takeWhile (\<lambda>c. c \<noteq> 0x5D) (label @ [0x5D, 0x5D]) = label"
    using l by (intro takeWhile_run) auto
  have r4: "dropWhile (\<lambda>c. c \<noteq> 0x5D) (label @ [0x5D, 0x5D]) = [0x5D, 0x5D]"
    using l by (intro dropWhile_run) auto
  show ?thesis
    unfolding s match_marker_at_def Let_def
    using assms(1,3) by (simp add: g1 r2 g2 r4 js_close)
qed

lemma match_marker_hit:
  "match_marker_at tag s = Some g \<Longrightarrow> match_marker tag s = Some g"
  by (cases s) auto

lemma match_marker_at_no_prefix:
  "\<not> prefix (js ''[['' @ tag @ js '':'') s \<Longrightarrow> match_marker_at tag s = None"
  by (simp add: match_marker_at_def Let_def)

lemma match_marker_no_opening:
  "\<not> sublist (js ''[['' @ tag @ js '':'') s \<Longrightarrow> match_marker tag s = None"
proof (induction s)
  case Nil
  then show ?case by (simp add: match_marker_at_no_prefix)
next
  case (Cons c cs)
  then have "\<not> prefix (js ''[['' @ tag @ js '':'') (c # cs)" "\<not> sublist (js ''[['' @ tag @ js '':'') cs"
    by (auto simp: sublist_Cons_right)
  with Cons.IH show ?case by (simp add: match_marker_at_no_prefix)
qed

text \<open>
  C8 (as the code has it): parsing the marker that \<open>createAnnotationMarkdown\<close>
  builds for a match gives back the kind, the reference key and the label,
  provided the key is not empty and has no \<open>|\<close>, the label is not empty and has
  no \<open>]\<close> at all, and, for a tradition, the marker does not contain \<open>[[quran:\<close>
  (the verse pattern is tried first).
\<close>

theorem parseAnnotation_createAnnotationMarkdown:
  assumes "vmatch v = Some m" and "reference_id v = Some key"
    and "key \<noteq> []" and "0x7C \<notin> set key"
    and "original_text (detected v) \<noteq> []" and "0x5D \<notin> set (original_text (detected v))"
    and "mtype m = hadith \<longrightarrow> \<not> sublist (js ''[[quran:'') (createAnnotationMarkdown v)"
  shows "parseAnnotation (createAnnotationMarkdown v) =
           Some \<lparr>p_type = mtype m, p_reference = key, p_display = original_text (detected v)\<rparr>"
proof (cases "mtype m")
  case quran
  have c: "createAnnotationMarkdown v =
      js ''[['' @ js ''quran'' @ js '':'' @ key @ js ''|'' @ original_text (detected v) @ js '']]''"
    using assms(1,2,3) quran by (simp add: createAnnotationMarkdown_def falsy_def js_def)
  have "match_marker (js ''quran'') (createAnnotationMarkdown v) = Some (key, original_text (detected v))"
    unfolding c by (rule match_marker_hit, rule match_marker_at_marker) (use assms in auto)
  then show ?thesis using quran by (simp add: parseAnnotation_def)
next
  case hadith
  have c: "createAnnotationMarkdown v =
      js ''[['' @ js ''hadith'' @ js '':'' @ key @ js ''|'' @ original_text (detected v) @ js '']]''"
    using assms(1,2,3) hadith by (simp add: createAnnotationMarkdown_def falsy_def js_def)
  have q: "js ''[['' @ js ''quran'' @ js '':'' = js ''[[quran:''" by (simp add: js_def)
  have n: "match_marker (js ''quran'') (createAnnotationMarkdown v) = None"
    by (rule match_marker_no_opening) (use assms(7) hadith q in simp)
  have "match_marker (js ''hadith'') (createAnnotationMarkdown v) = Some (key, original_text (detected v))"
    unfolding c by (rule match_marker_hit, rule match_marker_at_marker) (use assms in auto)
  then show ?thesis using hadith n by (simp add: parseAnnotation_def)
qed

lemma ex_hadith_marker: "createAnnotationMarkdown ex_verified_hadith = js ''[[hadith:bukhari:1:1|actions are by intentions]]''"
  by (simp add: createAnnotationMarkdown_def ex_verified_hadith_def falsy_def mtype_def js_def)

text \<open>The theorem of C8 at the marker of the tradition \<open>bukhari:1:1\<close>.\<close>

theorem parseAnnotation_createAnnotationMarkdown_witness:
  "parseAnnotation (createAnnotationMarkdown ex_verified_hadith) =
     Some \<lparr>p_type = hadith, p_reference = js ''bukhari:1:1'', p_display = js ''actions are by intentions''\<rparr>"
proof -
  let ?m = "\<lparr>reference = Tradition bukhari_1_1, similarity = 0.7\<rparr>"
  have 1: "vmatch ex_verified_hadith = Some ?m" by (simp add: ex_verified_hadith_def)
  have 2: "reference_id ex_verified_hadith = Some (js ''bukhari:1:1'')" by (simp add: ex_verified_hadith_def)
  have 3: "js ''bukhari:1:1'' \<noteq> []" by (simp add: js_def)
  have 4: "0x7C \<notin> set (js ''bukhari:1:1'')" by (simp add: js_def)
  have 5: "original_text (detected ex_verified_hadith) \<noteq> []" by (simp add: ex_verified_hadith_def js_def)
  have 6: "0x5D \<notin> set (original_text (detected ex_verified_hadith))" by (simp add: ex_verified_hadith_def js_def)
  have 7: "mtype ?m = hadith \<longrightarrow> \<not> sublist (js ''[[quran:'') (createAnnotationMarkdown ex_verified_hadith)"
    unfolding ex_hadith_marker by (simp add: js_def sublist_Cons_right)
  show ?thesis
    using parseAnnotation_createAnnotationMarkdown [OF 1 2 3 4 5 6 7]
    by (simp add: mtype_def ex_verified_hadith_def)
qed

text \<open>
  C8 as stated fails: a label with a single \<open>]\<close> does not contain \<open>]]\<close>, and its
  marker is not parsed at all.
\<close>

theorem parseAnnotation_single_bracket:
  "vmatch ex_verified_bracket \<noteq> None \<and>
   \<not> sublist (js '']]'') (original_text (detected ex_verified_bracket)) \<and>
   createAnnotationMarkdown ex_verified_bracket = js ''[[quran:2:255|Allahu [sic] la ilaha]]'' \<and>
   parseAnnotation (createAnnotationMarkdown ex_verified_bracket) = None"
  by (simp add: createAnnotationMarkdown_def ex_verified_bracket_def ex_verified_def falsy_def mtype_def ex_match_def
       parseAnnotation_def match_marker_at_def js_def sublist_Cons_right)

section \<open>Matcher and verifier: theorems\<close>

lemma matchAndVerify_run_search_error:
  "searchAll svc (corrected_text d @ js '' '' @ d_context d) 0.3 5 = Inl e \<Longrightarrow>
   matchAndVerify_run svc d = (no_match d, [CallSearchAll (corrected_text d @ js '' '' @ d_context d) 0.3 5])"
  by (simp add: matchAndVerify_run_def matchAndVerify_try_def Let_def)

lemma matchAndVerify_run_empty:
  "searchAll svc (corrected_text d @ js '' '' @ d_context d) 0.3 5 = Inr [] \<Longrightarrow>
   matchAndVerify_run svc d = (no_match d, [CallSearchAll (corrected_text d @ js '' '' @ d_context d) 0.3 5])"
  by (simp add: matchAndVerify_run_def matchAndVerify_try_def Let_def)

lemma matchAndVerify_run_verified:
  assumes "searchAll svc (corrected_text d @ js '' '' @ d_context d) 0.3 5 = Inr matches"
    and "matches \<noteq> []"
  shows "matchAndVerify_run svc d =
     ((case match_index (verifyMatch svc d matches) of
         None \<Rightarrow> \<lparr>detected = d, vmatch = None,
                   confidence = r_confidence (verifyMatch svc d matches), reference_id = None\<rparr>
       | Some i \<Rightarrow>
           if 0 \<le> i \<and> nat i < length matches
           then \<lparr>detected = d, vmatch = Some (matches ! nat i),
                 confidence = r_confidence (verifyMatch svc d matches),
                 reference_id = Some (createReferenceId (matches ! nat i))\<rparr>
           else no_match d),
      [CallSearchAll (corrected_text d @ js '' '' @ d_context d) 0.3 5, CallVerification d matches])"
  using assms
  by (simp add: matchAndVerify_run_def matchAndVerify_try_def Let_def split: option.split)

lemma detected_matchAndVerify: "detected (matchAndVerify svc d) = d"
proof (cases "searchAll svc (corrected_text d @ js '' '' @ d_context d) 0.3 5")
  case (Inl e)
  then show ?thesis
    by (simp add: matchAndVerify_def matchAndVerify_run_search_error no_match_def)
next
  case (Inr matches)
  show ?thesis
  proof (cases "matches = []")
    case True
    with Inr show ?thesis
      by (simp add: matchAndVerify_def matchAndVerify_run_empty no_match_def)
  next
    case False
    with Inr show ?thesis
      by (simp add: matchAndVerify_def matchAndVerify_run_verified no_match_def split: option.split)
  qed
qed

text \<open>
  C3 (as the code has it): for every candidate with at least one Reference Store
  result the verification model is called, whatever the similarity scores are
  (the code has no high-confidence cutoff and no margin), and its answer decides
  the match: no entry when it answers \<open>null\<close>, the entry at its index otherwise.
\<close>

theorem adjudication_always_invoked:
  assumes "searchAll svc (corrected_text d @ js '' '' @ d_context d) 0.3 5 = Inr matches"
    and "matches \<noteq> []"
  shows "CallVerification d matches \<in> set (snd (matchAndVerify_run svc d)) \<and>
         (match_index (verifyMatch svc d matches) = None \<longrightarrow> vmatch (matchAndVerify svc d) = None) \<and>
         (\<forall>i < length matches. match_index (verifyMatch svc d matches) = Some (int i) \<longrightarrow>
            vmatch (matchAndVerify svc d) = Some (matches ! i))"
  by (simp add: matchAndVerify_def matchAndVerify_run_verified [OF assms])

lemma ex_searchAll: "searchAll ex_svc q 0.3 5 = Inr [ex_match]"
  by (simp add: searchAll_def ex_svc_def ex_match_def)

lemma reject_searchAll: "searchAll svc_reject q 0.3 5 = Inr [ex_match]"
  by (simp add: searchAll_def svc_reject_def ex_svc_def ex_match_def)

lemma ex_verifyMatch:
  "verifyMatch ex_svc d ms = \<lparr>match_index = Some 0, r_confidence = 0.8, reasoning = []\<rparr>"
  by (simp add: verifyMatch_def ex_svc_def falsy_def js_def)

lemma ex_reference_id: "createReferenceId ex_match = js ''2:255''"
  by (simp add: createReferenceId_def ex_match_def verse_2_255_def show_nat.simps digit_def js_def)

lemma reject_verifyMatch:
  "verifyMatch svc_reject d ms = \<lparr>match_index = None, r_confidence = 0.9, reasoning = []\<rparr>"
  by (simp add: verifyMatch_def svc_reject_def ex_svc_def falsy_def js_def)

text \<open>The theorem of C3 at Scenario A's candidate: one result, index 0 chosen.\<close>

theorem adjudication_always_invoked_witness:
  "CallVerification ex_detection [ex_match] \<in> set (snd (matchAndVerify_run ex_svc ex_detection)) \<and>
   vmatch (matchAndVerify ex_svc ex_detection) = Some ex_match"
proof -
  have 1: "searchAll ex_svc (corrected_text ex_detection @ js '' '' @ d_context ex_detection) 0.3 5 = Inr [ex_match]"
    by (rule ex_searchAll)
  have 2: "[ex_match] \<noteq> []" by simp
  show ?thesis
    using adjudication_always_invoked [OF 1 2] by (simp add: ex_verifyMatch)
qed

text \<open>
  C3 as stated fails: with a single result of similarity 0.8 (a clear winner,
  above 0.55) the verification model is still called, and since it answers
  \<open>null\<close> the top candidate is not accepted.
\<close>

theorem clear_winner_is_adjudicated:
  "searchAll svc_reject (corrected_text ex_detection @ js '' '' @ d_context ex_detection) 0.3 5 = Inr [ex_match] \<and>
   similarity ex_match \<ge> 0.55 \<and>
   CallVerification ex_detection [ex_match] \<in> set (snd (matchAndVerify_run svc_reject ex_detection)) \<and>
   vmatch (matchAndVerify svc_reject ex_detection) = None"
  by (simp add: matchAndVerify_def matchAndVerify_run_verified [OF reject_searchAll] reject_verifyMatch
        reject_searchAll) (simp add: ex_match_def)

text \<open>
  C4 (as the code has it): for every Verified Match with a corpus entry, the
  verification model was called, the entry is the search result at the index it
  chose, and the confidence is the confidence stated in its reply (not a
  similarity score of the search).
\<close>

theorem confidence_from_verification:
  assumes "vmatch (matchAndVerify svc d) = Some m"
  shows "\<exists>matches i.
           searchAll svc (corrected_text d @ js '' '' @ d_context d) 0.3 5 = Inr matches \<and>
           i < length matches \<and>
           match_index (verifyMatch svc d matches) = Some (int i) \<and>
           m = matches ! i \<and>
           confidence (matchAndVerify svc d) = r_confidence (verifyMatch svc d matches) \<and>
           reference_id (matchAndVerify svc d) = Some (createReferenceId m)"
proof (cases "searchAll svc (corrected_text d @ js '' '' @ d_context d) 0.3 5")
  case (Inl e)
  with assms show ?thesis
    by (simp add: matchAndVerify_def matchAndVerify_run_search_error no_match_def)
next
  case (Inr matches)
  show ?thesis
  proof (cases "matches = []")
    case True
    with Inr assms show ?thesis
      by (simp add: matchAndVerify_def matchAndVerify_run_empty no_match_def)
  next
    case False
    note run = matchAndVerify_run_verified [OF Inr False]
    show ?thesis
    proof (cases "match_index (verifyMatch svc d matches)")
      case None
      with assms run show ?thesis by (simp add: matchAndVerify_def)
    next
      case (Some i)
      show ?thesis
      proof (cases "0 \<le> i \<and> nat i < length matches")
        case True
        with assms run Some have "m = matches ! nat i"
          "confidence (matchAndVerify svc d) = r_confidence (verifyMatch svc d matches)"
          "reference_id (matchAndVerify svc d) = Some (createReferenceId m)"
          by (simp_all add: matchAndVerify_def)
        moreover from True Some have "match_index (verifyMatch svc d matches) = Some (int (nat i))"
          by simp
        ultimately show ?thesis using Inr True by blast
      next
        case False
        with assms run Some show ?thesis by (simp add: matchAndVerify_def no_match_def)
      qed
    qed
  qed
qed

lemma D_searchAll:
  "searchAll svc_D q 0.3 5 =
     Inr [\<lparr>reference = Verse verse_2_255, similarity = 0.52\<rparr>,
          \<lparr>reference = Verse verse_3_2, similarity = 0.50\<rparr>]"
  by (simp add: searchAll_def svc_D_def ex_svc_def)

lemma D_verifyMatch:
  "verifyMatch svc_D d ms = \<lparr>match_index = Some 1, r_confidence = 0.9, reasoning = []\<rparr>"
  by (simp add: verifyMatch_def svc_D_def ex_svc_def falsy_def js_def)

lemma D_run:
  "matchAndVerify svc_D ex_detection =
     \<lparr>detected = ex_detection, vmatch = Some \<lparr>reference = Verse verse_3_2, similarity = 0.50\<rparr>,
      confidence = 0.9, reference_id = Some (js ''3:2'')\<rparr>"
  by (simp add: matchAndVerify_def matchAndVerify_run_verified [OF D_searchAll] D_verifyMatch
        createReferenceId_def verse_3_2_def show_nat.simps digit_def js_def)

text \<open>
  C4 as stated fails on Scenario D: the similarities are 0.52 and 0.50, the
  verification model picks index 1 and states confidence 0.9; the result is the
  second entry with confidence 0.9, which is neither 0.50 (its own similarity)
  nor 0.52 (the top similarity).
\<close>

theorem scenario_D_confidence:
  "map similarity (projr (searchAll svc_D (corrected_text ex_detection @ js '' '' @ d_context ex_detection) 0.3 5)) = [0.52, 0.50] \<and>
   match_index (verifyMatch svc_D ex_detection (projr (searchAll svc_D (corrected_text ex_detection @ js '' '' @ d_context ex_detection) 0.3 5))) = Some 1 \<and>
   vmatch (matchAndVerify svc_D ex_detection) = Some \<lparr>reference = Verse verse_3_2, similarity = 0.50\<rparr> \<and>
   confidence (matchAndVerify svc_D ex_detection) = 0.9 \<and>
   confidence (matchAndVerify svc_D ex_detection) \<noteq> 0.52 \<and>
   confidence (matchAndVerify svc_D ex_detection) \<noteq> 0.50"
  by (simp add: D_searchAll D_verifyMatch D_run)

text \<open>The theorem of C4 at Scenario D.\<close>

theorem confidence_from_verification_witness:
  "vmatch (matchAndVerify svc_D ex_detection) = Some \<lparr>reference = Verse verse_3_2, similarity = 0.50\<rparr> \<and>
   (\<exists>matches i.
      searchAll svc_D (corrected_text ex_detection @ js '' '' @ d_context ex_detection) 0.3 5 = Inr matches \<and>
      i < length matches \<and>
      match_index (verifyMatch svc_D ex_detection matches) = Some (int i) \<and>
      \<lparr>reference = Verse verse_3_2, similarity = 0.50\<rparr> = matches ! i \<and>
      confidence (matchAndVerify svc_D ex_detection) = r_confidence (verifyMatch svc_D ex_detection matches) \<and>
      reference_id (matchAndVerify svc_D ex_detection) =
        Some (createReferenceId \<lparr>reference = Verse verse_3_2, similarity = 0.50\<rparr>))"
proof -
  have h: "vmatch (matchAndVerify svc_D ex_detection) = Some \<lparr>reference = Verse verse_3_2, similarity = 0.50\<rparr>"
    by (simp add: D_run)
  from confidence_from_verification [OF h] h show ?thesis by blast
qed

section \<open>Orchestrator: theorems\<close>

lemma annotate_step_skip:
  "\<not> has_reference v \<Longrightarrow> annotate_step svc tid v st = st"
  by (auto simp: annotate_step_def has_reference_def split: option.split)

lemma annotations_annotate_step:
  "has_reference v \<Longrightarrow>
   annotations (annotate_step svc tid v st) =
     annotations st @
       [make_annotation svc tid (length (annotations st)) v (the (vmatch v)) (the (reference_id v))]"
  by (auto simp: annotate_step_def has_reference_def Let_def split: option.split)

lemma annotations_fold_annotate_step:
  "\<forall>a \<in> set (annotations (fold (annotate_step svc tid) vs st)).
     a \<in> set (annotations st) \<or>
     (\<exists>v \<in> set vs. \<exists>n. has_reference v \<and>
        a = make_annotation svc tid n v (the (vmatch v)) (the (reference_id v)))"
proof (induction vs arbitrary: st)
  case Nil
  then show ?case by simp
next
  case (Cons v vs)
  show ?case
  proof (cases "has_reference v")
    case False
    with Cons.IH [of st] show ?thesis by (auto simp: annotate_step_skip)
  next
    case True
    with Cons.IH [of "annotate_step svc tid v st"] show ?thesis
      by (auto simp: annotations_annotate_step)
  qed
qed

lemma set_sortedMatches:
  "set (sortedMatches vms) = {v \<in> set vms. confidence v \<ge> CONFIDENCE_AUTO_ANNOTATE \<and> vmatch v \<noteq> None}"
  by (auto simp: sortedMatches_def)

lemma annotations_annotate:
  "annotations (annotate svc tid text vms) =
     annotations (fold (annotate_step svc tid) (sortedMatches vms)
       \<lparr>annotated_text = text, annotations = [],
        stats = \<lparr>total_detected = length vms, quran_matches = 0,
                 hadith_matches = 0, low_confidence_skipped = 0\<rparr>\<rparr>)"
  by (simp add: annotate_def Let_def)

lemma annotation_origin:
  assumes "a \<in> set (annotations (annotate svc tid text vms))"
  shows "\<exists>v \<in> set vms. \<exists>n. confidence v \<ge> CONFIDENCE_AUTO_ANNOTATE \<and> has_reference v \<and>
           a = make_annotation svc tid n v (the (vmatch v)) (the (reference_id v))"
proof -
  from assms annotations_fold_annotate_step [of svc tid "sortedMatches vms"]
  obtain v n where "v \<in> set (sortedMatches vms)" "has_reference v"
    "a = make_annotation svc tid n v (the (vmatch v)) (the (reference_id v))"
    unfolding annotations_annotate by fastforce
  then show ?thesis by (auto simp: set_sortedMatches)
qed

lemma outcome_fail_run: "outcome (fail_run svc tid e ws) \<noteq> Inr r"
  by (simp add: fail_run_def split: option.split)

lemma writes_fail_run: "writes (fail_run svc tid e ws) = ws @ [UpdateStatus tid failed]"
  by (simp add: fail_run_def split: option.split)

lemma processTranscript_result:
  assumes "outcome (processTranscript svc tid text) = Inr r"
  shows "r = annotate svc tid text (verify_all svc (detect_all svc text))"
  using assms
  by (auto simp: processTranscript_def Let_def outcome_fail_run split: option.splits if_splits)

lemma processTranscript_inserted:
  assumes "InsertAnnotations as \<in> set (writes (processTranscript svc tid text))"
  shows "as = annotations (annotate svc tid text (verify_all svc (detect_all svc text)))"
  using assms
  by (auto simp: processTranscript_def Let_def writes_fail_run split: option.splits if_splits)

text \<open>
  C5: in every run, each annotation of the result, and each annotation written
  to the database, has confidence at least 0.5 and comes from a Verified Match
  with a corpus entry (whose kind and reference key it carries).
\<close>

theorem confidence_gate:
  "(\<forall>r. outcome (processTranscript svc tid text) = Inr r \<longrightarrow>
      (\<forall>a \<in> set (annotations r). a_confidence a \<ge> 0.5 \<and>
         (\<exists>v \<in> set (verify_all svc (detect_all svc text)). \<exists>m.
            vmatch v = Some m \<and> confidence v = a_confidence a \<and> a_type a = mtype m \<and>
            reference_id v = Some (a_reference_id a)))) \<and>
   (\<forall>as. InsertAnnotations as \<in> set (writes (processTranscript svc tid text)) \<longrightarrow>
      (\<forall>a \<in> set as. a_confidence a \<ge> 0.5 \<and>
         (\<exists>v \<in> set (verify_all svc (detect_all svc text)). \<exists>m.
            vmatch v = Some m \<and> confidence v = a_confidence a \<and> a_type a = mtype m \<and>
            reference_id v = Some (a_reference_id a))))"
proof -
  let ?vms = "verify_all svc (detect_all svc text)"
  have gate: "a_confidence a \<ge> 0.5 \<and>
         (\<exists>v \<in> set ?vms. \<exists>m.
            vmatch v = Some m \<and> confidence v = a_confidence a \<and> a_type a = mtype m \<and>
            reference_id v = Some (a_reference_id a))"
    if mem: "a \<in> set (annotations (annotate svc tid text ?vms))" for a
  proof -
    from annotation_origin [OF mem] obtain v n where
      v: "v \<in> set ?vms" "confidence v \<ge> CONFIDENCE_AUTO_ANNOTATE" "has_reference v"
      and a: "a = make_annotation svc tid n v (the (vmatch v)) (the (reference_id v))"
      by blast
    from v(3) obtain m rid where "vmatch v = Some m" "reference_id v = Some rid"
      by (auto simp: has_reference_def falsy_def)
    with v a show ?thesis
      by (auto simp: make_annotation_def CONFIDENCE_AUTO_ANNOTATE_def)
  qed
  show ?thesis
    using gate processTranscript_result [of svc tid "text"] processTranscript_inserted [of _ svc tid "text"]
    by blast
qed

lemma ex_chunks: "splitIntoChunks ex_text 2000 = [ex_text]"
  by (simp add: splitIntoChunks_def ex_text_def paragraph_step_def js_def is_space_def trim_def para_sep_def)

lemma ex_detectReferences: "detectReferences ex_svc c = [ex_detection]"
  by (simp add: detectReferences_def ex_svc_def falsy_def js_def)

lemma rebase_0: "rebase 0 d = d"
  by (simp add: rebase_def)

lemma ex_detect_all: "detect_all ex_svc ex_text = [ex_detection]"
  by (simp add: detect_all_def ex_chunks detect_step_def ex_detectReferences rebase_0)

lemma ex_matchAndVerify: "matchAndVerify ex_svc ex_detection = ex_verified"
  by (simp add: matchAndVerify_def matchAndVerify_run_verified [OF ex_searchAll] 
        ex_verifyMatch ex_reference_id ex_verified_def)

lemma ex_marker: "createAnnotationMarkdown ex_verified = js ''[[quran:2:255|Allahu la ilaha illa huwa]]''"
  by (simp add: createAnnotationMarkdown_def ex_verified_def falsy_def mtype_def ex_match_def ex_detection_def js_def)

lemma ex_sorted: "sortedMatches [ex_verified] = [ex_verified]"
  by (simp add: sortedMatches_def ex_verified_def CONFIDENCE_AUTO_ANNOTATE_def)

lemma ex_found:
  "indexOf (toLowerCase ex_svc ex_text) (toLowerCase ex_svc (js ''Allahu la ilaha illa huwa'')) = Some 9"
  by (simp add: ex_svc_def ascii_lower_def ex_text_def js_def)

lemma ex_make_annotation:
  "make_annotation ex_svc (js ''t1'') 0 ex_verified ex_match (js ''2:255'') = ex_annotation"
  by (simp add: make_annotation_def ex_annotation_def ex_verified_def ex_detection_def mtype_def
        ex_match_def) (simp add: ex_svc_def show_nat.simps digit_def js_def)

lemma ex_annotate: "annotate ex_svc (js ''t1'') ex_text [ex_verified] = ex_result"
proof -
  have v: "vmatch ex_verified = Some ex_match" "reference_id ex_verified = Some (js ''2:255'')"
    "original_text (detected ex_verified) = js ''Allahu la ilaha illa huwa''"
    "confidence ex_verified = 0.8"
    by (simp_all add: ex_verified_def ex_detection_def)
  have nf: "\<not> falsy (Some (js ''2:255''))" by (simp add: falsy_def js_def)
  have t: "take 9 ex_text @ js ''[[quran:2:255|Allahu la ilaha illa huwa]]'' @
           drop (9 + length (js ''Allahu la ilaha illa huwa'')) ex_text =
           js ''He said, [[quran:2:255|Allahu la ilaha illa huwa]].''"
    by (simp add: ex_text_def js_def)
  have m: "mtype ex_match = quran" by (simp add: mtype_def ex_match_def)
  show ?thesis
    by (simp add: annotate_def ex_sorted annotate_step_def v nf Let_def ex_found ex_marker
          ex_make_annotation t m count_match_def ex_result_def CONFIDENCE_AUTO_ANNOTATE_def)
qed

lemma ex_run:
  "processTranscript ex_svc (js ''t1'') ex_text =
     \<lparr>outcome = Inr ex_result,
      writes = [UpdateStatus (js ''t1'') processing,
                UpdateAnnotated (js ''t1'') (annotated_text ex_result),
                InsertAnnotations [ex_annotation]]\<rparr>"
proof -
  have d: "db ex_svc w = None" for w by (simp add: ex_svc_def)
  have a: "annotations ex_result = [ex_annotation]" by (simp add: ex_result_def)
  show ?thesis
    by (simp add: processTranscript_def Let_def d ex_detect_all verify_all_def ex_matchAndVerify
          ex_annotate a)
qed

text \<open>
  The theorem of C5 at the run on Scenario A's document: one annotation, of
  confidence 0.8, returned and written.
\<close>

theorem confidence_gate_witness:
  "outcome (processTranscript ex_svc (js ''t1'') ex_text) = Inr ex_result \<and>
   InsertAnnotations [ex_annotation] \<in> set (writes (processTranscript ex_svc (js ''t1'') ex_text)) \<and>
   annotations ex_result = [ex_annotation] \<and>
   a_confidence ex_annotation \<ge> 0.5 \<and>
   (\<exists>v \<in> set (verify_all ex_svc (detect_all ex_svc ex_text)). \<exists>m.
       vmatch v = Some m \<and> confidence v = a_confidence ex_annotation \<and> a_type ex_annotation = mtype m \<and>
       reference_id v = Some (a_reference_id ex_annotation))"
proof -
  have o: "outcome (processTranscript ex_svc (js ''t1'') ex_text) = Inr ex_result"
    by (simp add: ex_run)
  have w: "InsertAnnotations [ex_annotation] \<in> set (writes (processTranscript ex_svc (js ''t1'') ex_text))"
    by (simp add: ex_run)
  have a: "annotations ex_result = [ex_annotation]" by (simp add: ex_result_def)
  from confidence_gate [of ex_svc "js ''t1''" ex_text] o a
  have "a_confidence ex_annotation \<ge> 0.5 \<and>
   (\<exists>v \<in> set (verify_all ex_svc (detect_all ex_svc ex_text)). \<exists>m.
       vmatch v = Some m \<and> confidence v = a_confidence ex_annotation \<and> a_type ex_annotation = mtype m \<and>
       reference_id v = Some (a_reference_id ex_annotation))"
    by (metis list.set_intros(1))
  with o w a show ?thesis by blast
qed

lemma fold_detect_step:
  "fold (detect_step svc) chunks (acc, off) =
     (acc @ concat (map (\<lambda>(k, c). map (rebase k) (detectReferences svc c))
                     (zip (chunk_offsets off chunks) chunks)),
      off + sum_list (map (\<lambda>c. length c + 2) chunks))"
  by (induction chunks arbitrary: acc off) (simp_all add: detect_step_def)

lemma detect_all_zip:
  "detect_all svc text =
     concat (map (\<lambda>(k, c). map (rebase k) (detectReferences svc c))
       (zip (chunk_offsets 0 (splitIntoChunks text 2000)) (splitIntoChunks text 2000)))"
  by (simp add: detect_all_def fold_detect_step)

text \<open>
  C1 (as the code has it): in every run that returns, the start and end offsets
  of each annotation are the offsets that the Detector reported for some
  detection of some chunk, moved by the running offset of that chunk (the sum,
  over the chunks before it, of the chunk length plus 2). Where the literal
  text was found in the document plays no part in them.
\<close>

theorem annotation_offsets_from_detector:
  assumes "outcome (processTranscript svc tid text) = Inr r"
  shows "\<forall>a \<in> set (annotations r).
           \<exists>(off, chunk) \<in> set (zip (chunk_offsets 0 (splitIntoChunks text 2000))
                                       (splitIntoChunks text 2000)).
             \<exists>d \<in> set (detectReferences svc chunk).
               a_start_index a = start_index d + int off \<and>
               a_end_index a = end_index d + int off \<and>
               a_original_text a = original_text d"
proof
  fix a assume "a \<in> set (annotations r)"
  then have "a \<in> set (annotations (annotate svc tid text (verify_all svc (detect_all svc text))))"
    using processTranscript_result [OF assms] by simp
  from annotation_origin [OF this] obtain v n where
    v: "v \<in> set (verify_all svc (detect_all svc text))"
    and a: "a = make_annotation svc tid n v (the (vmatch v)) (the (reference_id v))"
    by blast
  from v obtain d' where d': "d' \<in> set (detect_all svc text)" "v = matchAndVerify svc d'"
    by (auto simp: verify_all_def)
  then have dv: "detected v = d'" by (simp add: detected_matchAndVerify)
  from d'(1) obtain off chunk d where
    z: "(off, chunk) \<in> set (zip (chunk_offsets 0 (splitIntoChunks text 2000)) (splitIntoChunks text 2000))"
    and d: "d \<in> set (detectReferences svc chunk)" "d' = rebase off d"
    unfolding detect_all_zip by auto
  have "a_start_index a = start_index d + int off \<and>
        a_end_index a = end_index d + int off \<and>
        a_original_text a = original_text d"
    using a dv d(2) by (simp add: make_annotation_def rebase_def)
  with z d(1) show "\<exists>(off, chunk) \<in> set (zip (chunk_offsets 0 (splitIntoChunks text 2000))
                                       (splitIntoChunks text 2000)).
             \<exists>d \<in> set (detectReferences svc chunk).
               a_start_index a = start_index d + int off \<and>
               a_end_index a = end_index d + int off \<and>
               a_original_text a = original_text d"
    by blast
qed

text \<open>The theorem of C1 at the run on Scenario A's document.\<close>

theorem annotation_offsets_from_detector_witness:
  "outcome (processTranscript ex_svc (js ''t1'') ex_text) = Inr ex_result \<and>
   annotations ex_result = [ex_annotation] \<and>
   (\<exists>(off, chunk) \<in> set (zip (chunk_offsets 0 (splitIntoChunks ex_text 2000))
                               (splitIntoChunks ex_text 2000)).
      \<exists>d \<in> set (detectReferences ex_svc chunk).
        a_start_index ex_annotation = start_index d + int off \<and>
        a_end_index ex_annotation = end_index d + int off \<and>
        a_original_text ex_annotation = original_text d)"
proof -
  have run: "outcome (processTranscript ex_svc (js ''t1'') ex_text) = Inr ex_result"
    by (simp add: ex_run)
  have a: "annotations ex_result = [ex_annotation]"
    by (simp add: ex_result_def)
  then have "ex_annotation \<in> set (annotations ex_result)"
    by simp
  with annotation_offsets_from_detector [OF run] run a show ?thesis
    by blast
qed

text \<open>
  C1 as stated fails: in Scenario A's document the literal text is found and
  replaced at offset 9, so that the marker is at 9 to 50 and its label at 23 to
  48 of the rewritten document, while the annotation records 12 and 37, the
  offsets that the Detector reported.
\<close>

theorem annotation_offsets_not_placement:
  "outcome (processTranscript ex_svc (js ''t1'') ex_text) = Inr ex_result \<and>
   indexOf (toLowerCase ex_svc ex_text) (toLowerCase ex_svc (js ''Allahu la ilaha illa huwa'')) = Some 9 \<and>
   annotated_text ex_result = js ''He said, [[quran:2:255|Allahu la ilaha illa huwa]].'' \<and>
   take 41 (drop 9 (annotated_text ex_result)) = js ''[[quran:2:255|Allahu la ilaha illa huwa]]'' \<and>
   take 25 (drop 23 (annotated_text ex_result)) = js ''Allahu la ilaha illa huwa'' \<and>
   detectReferences ex_svc ex_text = [ex_detection] \<and>
   start_index ex_detection = 12 \<and> end_index ex_detection = 37 \<and>
   map a_start_index (annotations ex_result) = [12] \<and>
   map a_end_index (annotations ex_result) = [37]"
  by (simp add: ex_run ex_found ex_detectReferences)
     (simp add: ex_result_def ex_annotation_def ex_detection_def js_def)

lemma createReferenceId_not_empty: "createReferenceId m \<noteq> []"
  by (simp add: createReferenceId_def js_def split: corpus_entry.split)

lemma matchAndVerify_reference_id:
  assumes "vmatch (matchAndVerify svc d) = Some m"
  shows "reference_id (matchAndVerify svc d) = Some (createReferenceId m)"
proof (cases "searchAll svc (corrected_text d @ js '' '' @ d_context d) 0.3 5")
  case (Inl e)
  with assms show ?thesis
    by (simp add: matchAndVerify_def matchAndVerify_run_search_error no_match_def)
next
  case (Inr matches)
  show ?thesis
  proof (cases "matches = []")
    case True
    with Inr assms show ?thesis
      by (simp add: matchAndVerify_def matchAndVerify_run_empty no_match_def)
  next
    case False
    with Inr assms show ?thesis
      by (auto simp: matchAndVerify_def matchAndVerify_run_verified no_match_def
            split: option.splits if_splits)
  qed
qed

lemma has_reference_verified:
  assumes "v \<in> set (sortedMatches (verify_all svc ds))"
  shows "has_reference v"
proof -
  from assms obtain d where v: "v = matchAndVerify svc d" and m: "vmatch v \<noteq> None"
    by (auto simp: set_sortedMatches verify_all_def)
  then obtain m' where "vmatch (matchAndVerify svc d) = Some m'" by auto
  from matchAndVerify_reference_id [OF this] v m show ?thesis
    by (simp add: has_reference_def falsy_def createReferenceId_not_empty)
qed

lemma length_annotations_fold:
  "\<forall>v \<in> set vs. has_reference v \<Longrightarrow>
   length (annotations (fold (annotate_step svc tid) vs st)) = length (annotations st) + length vs"
  by (induction vs arbitrary: st) (simp_all add: annotations_annotate_step)

lemma kind_total_count_match:
  "quran_matches (count_match k s) + hadith_matches (count_match k s) =
   Suc (quran_matches s + hadith_matches s)"
  by (simp add: count_match_def)

lemma stats_annotate_step:
  "has_reference v \<Longrightarrow>
   stats (annotate_step svc tid v st) = count_match (mtype (the (vmatch v))) (stats st)"
  by (auto simp: annotate_step_def has_reference_def Let_def split: option.split)

lemma kind_total_fold:
  "\<forall>v \<in> set vs. has_reference v \<Longrightarrow>
   quran_matches (stats (fold (annotate_step svc tid) vs st)) +
   hadith_matches (stats (fold (annotate_step svc tid) vs st)) =
   quran_matches (stats st) + hadith_matches (stats st) + length vs"
  by (induction vs arbitrary: st) (simp_all add: stats_annotate_step kind_total_count_match)

lemma annotations_fold_prefix:
  "prefix (annotations st) (annotations (fold (annotate_step svc tid) vs st))"
proof (induction vs arbitrary: st)
  case Nil
  then show ?case by simp
next
  case (Cons v vs)
  have "prefix (annotations st) (annotations (annotate_step svc tid v st))"
    by (cases "has_reference v") (simp_all add: annotate_step_skip annotations_annotate_step)
  with Cons.IH [of "annotate_step svc tid v st"] show ?case
    by (auto intro: prefix_order.trans)
qed

lemma placement_state_Suc:
  assumes "k < length (sortedMatches vms)"
  shows "placement_state svc tid text vms (Suc k) =
         annotate_step svc tid (sortedMatches vms ! k) (placement_state svc tid text vms k)"
  using assms by (simp add: placement_state_def take_Suc_conv_app_nth)

lemma placement_state_final:
  assumes "k \<le> length (sortedMatches vms)"
  shows "placement_state svc tid text vms (length (sortedMatches vms)) =
         fold (annotate_step svc tid) (drop k (sortedMatches vms)) (placement_state svc tid text vms k)"
proof -
  have "fold (annotate_step svc tid) (take k (sortedMatches vms) @ drop k (sortedMatches vms)) st =
        fold (annotate_step svc tid) (drop k (sortedMatches vms))
          (fold (annotate_step svc tid) (take k (sortedMatches vms)) st)" for st
    by (simp only: fold_append comp_apply)
  then show ?thesis by (simp add: placement_state_def)
qed

lemma annotate_placement_state:
  "annotated_text (annotate svc tid text vms) =
     annotated_text (placement_state svc tid text vms (length (sortedMatches vms)))"
  "annotations (annotate svc tid text vms) =
     annotations (placement_state svc tid text vms (length (sortedMatches vms)))"
  "quran_matches (stats (annotate svc tid text vms)) =
     quran_matches (stats (placement_state svc tid text vms (length (sortedMatches vms))))"
  "hadith_matches (stats (annotate svc tid text vms)) =
     hadith_matches (stats (placement_state svc tid text vms (length (sortedMatches vms))))"
  by (simp_all add: annotate_def placement_state_def Let_def)

lemma processTranscript_persists:
  assumes "outcome (processTranscript svc tid text) = Inr r" and "annotations r \<noteq> []"
  shows "InsertAnnotations (annotations r) \<in> set (writes (processTranscript svc tid text))"
  using assms
  by (auto simp: processTranscript_def Let_def outcome_fail_run split: option.splits if_splits)

text \<open>
  C2 (as the code has it): take a run that returns, and the k-th match of the
  placement loop (the accepted matches in descending order of their advisory
  start offset). When the case-insensitive search does not find its literal
  text in the working document as it is when the loop reaches that match, the
  match leaves the working document as it is; its annotation is nevertheless
  the k-th annotation of the result, the annotations of the result are written
  to the database, and every match of the loop, placed or not, is counted under
  its kind.
\<close>

theorem unplaced_match_is_annotated:
  assumes "outcome (processTranscript svc tid text) = Inr r"
    and "k < length (sortedMatches (verify_all svc (detect_all svc text)))"
    and "indexOf
           (toLowerCase svc
              (annotated_text (placement_state svc tid text (verify_all svc (detect_all svc text)) k)))
           (toLowerCase svc
              (original_text (detected (sortedMatches (verify_all svc (detect_all svc text)) ! k)))) = None"
  shows "annotated_text (placement_state svc tid text (verify_all svc (detect_all svc text)) (Suc k)) =
           annotated_text (placement_state svc tid text (verify_all svc (detect_all svc text)) k) \<and>
         annotated_text r =
           annotated_text (placement_state svc tid text (verify_all svc (detect_all svc text))
              (length (sortedMatches (verify_all svc (detect_all svc text))))) \<and>
         length (annotations r) = length (sortedMatches (verify_all svc (detect_all svc text))) \<and>
         annotations r ! k =
           make_annotation svc tid k (sortedMatches (verify_all svc (detect_all svc text)) ! k)
             (the (vmatch (sortedMatches (verify_all svc (detect_all svc text)) ! k)))
             (the (reference_id (sortedMatches (verify_all svc (detect_all svc text)) ! k))) \<and>
         InsertAnnotations (annotations r) \<in> set (writes (processTranscript svc tid text)) \<and>
         quran_matches (stats r) + hadith_matches (stats r) =
           length (sortedMatches (verify_all svc (detect_all svc text)))"
proof -
  let ?vms = "verify_all svc (detect_all svc text)"
  let ?sorted = "sortedMatches ?vms"
  let ?v = "?sorted ! k"
  let ?st = "placement_state svc tid text ?vms"
  have r: "r = annotate svc tid text ?vms"
    using processTranscript_result [OF assms(1)] .
  have all: "\<forall>v \<in> set ?sorted. has_reference v"
    by (auto intro: has_reference_verified)
  with assms(2) have hv: "has_reference ?v" by simp
  then obtain m rid where m: "vmatch ?v = Some m" and rid: "reference_id ?v = Some rid" "rid \<noteq> []"
    by (auto simp: has_reference_def falsy_def)
  have lenk: "length (annotations (?st j)) = j" if "j \<le> length ?sorted" for j
  proof -
    have "\<forall>v \<in> set (take j ?sorted). has_reference v"
      using all by (auto dest: in_set_takeD)
    from length_annotations_fold [OF this, of svc tid] that show ?thesis
      by (simp add: placement_state_def)
  qed
  have step: "?st (Suc k) = annotate_step svc tid ?v (?st k)"
    using assms(2) by (rule placement_state_Suc)
  have text_same: "annotated_text (?st (Suc k)) = annotated_text (?st k)"
    unfolding step using m rid assms(3) by (simp add: annotate_step_def falsy_def Let_def)
  have ann_k: "annotations (?st (Suc k)) =
      annotations (?st k) @ [make_annotation svc tid k ?v (the (vmatch ?v)) (the (reference_id ?v))]"
    unfolding step using hv lenk [of k] assms(2) by (simp add: annotations_annotate_step)
  have fin: "?st (length ?sorted) = fold (annotate_step svc tid) (drop (Suc k) ?sorted) (?st (Suc k))"
    using assms(2) by (intro placement_state_final) simp
  have "prefix (annotations (?st (Suc k))) (annotations (?st (length ?sorted)))"
    unfolding fin by (rule annotations_fold_prefix)
  then obtain zs where "annotations (?st (length ?sorted)) = annotations (?st (Suc k)) @ zs"
    by (auto simp: prefix_def)
  then have nth: "annotations (?st (length ?sorted)) ! k =
      make_annotation svc tid k ?v (the (vmatch ?v)) (the (reference_id ?v))"
    using ann_k lenk [of k] assms(2) by (simp add: nth_append)
  have len: "length (annotations r) = length ?sorted"
    using lenk [of "length ?sorted"] by (simp add: r annotate_placement_state)
  then have "annotations r \<noteq> []" using assms(2) by auto
  then have ins: "InsertAnnotations (annotations r) \<in> set (writes (processTranscript svc tid text))"
    by (rule processTranscript_persists [OF assms(1)])
  have "quran_matches (stats (?st (length ?sorted))) + hadith_matches (stats (?st (length ?sorted))) =
        length ?sorted"
    using kind_total_fold [OF all, of svc tid] by (simp add: placement_state_def)
  then have cnt: "quran_matches (stats r) + hadith_matches (stats r) = length ?sorted"
    by (simp add: r annotate_placement_state)
  from text_same nth len ins cnt show ?thesis
    by (simp add: r annotate_placement_state)
qed

lemma misquoted_absent:
  "indexOf (toLowerCase ex_svc ex_text) (toLowerCase ex_svc (js ''Allahu la ilaha ila huwa'')) = None"
  by (simp add: ex_svc_def ascii_lower_def ex_text_def js_def)

lemma misquoted_make_annotation:
  "make_annotation svc_misquoted (js ''t1'') 0 ex_verified_misquoted ex_match (js ''2:255'') = ex_annotation_misquoted"
  by (simp add: make_annotation_def ex_annotation_misquoted_def ex_annotation_def ex_verified_misquoted_def
       ex_verified_def ex_misquoted_def ex_detection_def mtype_def ex_match_def)
     (simp add: svc_misquoted_def ex_svc_def show_nat.simps digit_def js_def)

lemma misquoted_detectReferences: "detectReferences svc_misquoted c = [ex_misquoted]"
  by (simp add: detectReferences_def svc_misquoted_def ex_svc_def falsy_def js_def)

lemma misquoted_detect_all: "detect_all svc_misquoted ex_text = [ex_misquoted]"
  by (simp add: detect_all_def ex_chunks detect_step_def misquoted_detectReferences rebase_0)

lemma misquoted_searchAll: "searchAll svc_misquoted q 0.3 5 = Inr [ex_match]"
  by (simp add: searchAll_def svc_misquoted_def ex_svc_def ex_match_def)

lemma misquoted_verifyMatch:
  "verifyMatch svc_misquoted d ms = \<lparr>match_index = Some 0, r_confidence = 0.8, reasoning = []\<rparr>"
  by (simp add: verifyMatch_def svc_misquoted_def ex_svc_def falsy_def js_def)

lemma misquoted_matchAndVerify: "matchAndVerify svc_misquoted ex_misquoted = ex_verified_misquoted"
  by (simp add: matchAndVerify_def matchAndVerify_run_verified [OF misquoted_searchAll]
        misquoted_verifyMatch ex_reference_id ex_verified_misquoted_def ex_verified_def)

lemma misquoted_sorted: "sortedMatches [ex_verified_misquoted] = [ex_verified_misquoted]"
  by (simp add: sortedMatches_def ex_verified_misquoted_def ex_verified_def CONFIDENCE_AUTO_ANNOTATE_def)

lemma misquoted_annotate:
  "annotate svc_misquoted (js ''t1'') ex_text [ex_verified_misquoted] = ex_result_misquoted"
proof -
  have v: "vmatch ex_verified_misquoted = Some ex_match"
    "reference_id ex_verified_misquoted = Some (js ''2:255'')"
    "original_text (detected ex_verified_misquoted) = js ''Allahu la ilaha ila huwa''"
    "confidence ex_verified_misquoted = 0.8"
    by (simp_all add: ex_verified_misquoted_def ex_verified_def ex_misquoted_def)
  have nf: "\<not> falsy (Some (js ''2:255''))" by (simp add: falsy_def js_def)
  have l: "toLowerCase svc_misquoted = toLowerCase ex_svc" by (simp add: svc_misquoted_def)
  have m: "mtype ex_match = quran" by (simp add: mtype_def ex_match_def)
  show ?thesis
    by (simp add: annotate_def misquoted_sorted annotate_step_def v nf Let_def l misquoted_absent
          misquoted_make_annotation m count_match_def ex_result_misquoted_def CONFIDENCE_AUTO_ANNOTATE_def)
qed

lemma misquoted_run:
  "processTranscript svc_misquoted (js ''t1'') ex_text =
     \<lparr>outcome = Inr ex_result_misquoted,
      writes = [UpdateStatus (js ''t1'') processing,
                UpdateAnnotated (js ''t1'') ex_text,
                InsertAnnotations [ex_annotation_misquoted]]\<rparr>"
proof -
  have d: "db svc_misquoted w = None" for w by (simp add: svc_misquoted_def ex_svc_def)
  have a: "annotations ex_result_misquoted = [ex_annotation_misquoted]"
    "annotated_text ex_result_misquoted = ex_text" by (simp_all add: ex_result_misquoted_def)
  show ?thesis
    by (simp add: processTranscript_def Let_def d misquoted_detect_all verify_all_def
          misquoted_matchAndVerify misquoted_annotate a)
qed

lemma misquoted_verify_all:
  "verify_all svc_misquoted (detect_all svc_misquoted ex_text) = [ex_verified_misquoted]"
  by (simp add: misquoted_detect_all verify_all_def misquoted_matchAndVerify)

lemma misquoted_placement_state_0:
  "placement_state svc_misquoted (js ''t1'') ex_text [ex_verified_misquoted] 0 = ex_state"
  by (simp add: placement_state_def ex_state_def)

text \<open>
  The theorem of C2 at the run with the misquoted candidate, whose literal text
  is not in Scenario A's document.
\<close>

theorem unplaced_match_is_annotated_witness:
  "outcome (processTranscript svc_misquoted (js ''t1'') ex_text) = Inr ex_result_misquoted \<and>
   sortedMatches (verify_all svc_misquoted (detect_all svc_misquoted ex_text)) = [ex_verified_misquoted] \<and>
   placement_state svc_misquoted (js ''t1'') ex_text
     (verify_all svc_misquoted (detect_all svc_misquoted ex_text)) 0 = ex_state \<and>
   annotated_text (placement_state svc_misquoted (js ''t1'') ex_text
     (verify_all svc_misquoted (detect_all svc_misquoted ex_text)) (Suc 0)) = ex_text \<and>
   length (annotations ex_result_misquoted) = 1 \<and>
   annotations ex_result_misquoted ! 0 = ex_annotation_misquoted \<and>
   InsertAnnotations (annotations ex_result_misquoted) \<in>
     set (writes (processTranscript svc_misquoted (js ''t1'') ex_text)) \<and>
   quran_matches (stats ex_result_misquoted) + hadith_matches (stats ex_result_misquoted) = 1"
proof -
  have run: "outcome (processTranscript svc_misquoted (js ''t1'') ex_text) = Inr ex_result_misquoted"
    by (simp add: misquoted_run)
  have s: "sortedMatches (verify_all svc_misquoted (detect_all svc_misquoted ex_text)) = [ex_verified_misquoted]"
    by (simp add: misquoted_verify_all misquoted_sorted)
  have k: "0 < length (sortedMatches (verify_all svc_misquoted (detect_all svc_misquoted ex_text)))"
    by (simp add: s)
  have p: "placement_state svc_misquoted (js ''t1'') ex_text
     (verify_all svc_misquoted (detect_all svc_misquoted ex_text)) 0 = ex_state"
    by (simp add: misquoted_verify_all misquoted_placement_state_0)
  have absent: "indexOf
           (toLowerCase svc_misquoted
              (annotated_text (placement_state svc_misquoted (js ''t1'') ex_text
                 (verify_all svc_misquoted (detect_all svc_misquoted ex_text)) 0)))
           (toLowerCase svc_misquoted
              (original_text (detected
                 (sortedMatches (verify_all svc_misquoted (detect_all svc_misquoted ex_text)) ! 0)))) = None"
    using misquoted_absent
    by (simp add: p s) (simp add: ex_state_def ex_verified_misquoted_def ex_misquoted_def svc_misquoted_def)
  have a: "make_annotation svc_misquoted (js ''t1'') 0 ex_verified_misquoted
             (the (vmatch ex_verified_misquoted)) (the (reference_id ex_verified_misquoted)) =
           ex_annotation_misquoted"
    using misquoted_make_annotation by (simp add: ex_verified_misquoted_def ex_verified_def)
  have t: "annotated_text ex_state = ex_text" by (simp add: ex_state_def)
  from unplaced_match_is_annotated [OF run k absent] run s p a t show ?thesis
    by simp
qed

text \<open>
  C2 as stated fails: the run on Scenario A's document with the misquoted
  literal text leaves the document unchanged, and still returns and writes one
  annotation for the match that was not placed.
\<close>

theorem unplaced_match_is_persisted:
  "verify_all svc_misquoted (detect_all svc_misquoted ex_text) = [ex_verified_misquoted] \<and>
   sortedMatches [ex_verified_misquoted] = [ex_verified_misquoted] \<and>
   indexOf (toLowerCase svc_misquoted ex_text)
     (toLowerCase svc_misquoted (original_text (detected ex_verified_misquoted))) = None \<and>
   outcome (processTranscript svc_misquoted (js ''t1'') ex_text) = Inr ex_result_misquoted \<and>
   annotated_text ex_result_misquoted = ex_text \<and>
   annotations ex_result_misquoted = [ex_annotation_misquoted] \<and>
   InsertAnnotations [ex_annotation_misquoted] \<in>
     set (writes (processTranscript svc_misquoted (js ''t1'') ex_text))"
  using misquoted_absent
  by (simp add: misquoted_run misquoted_detect_all verify_all_def misquoted_matchAndVerify misquoted_sorted)
     (simp add: ex_result_misquoted_def ex_verified_misquoted_def ex_misquoted_def svc_misquoted_def)











lemma matching_fails_no_match:
  assumes "matching_fails svc d"
  shows "matchAndVerify svc d = no_match d"
proof (cases "searchAll svc (corrected_text d @ js '' '' @ d_context d) 0.3 5")
  case (Inl e)
  then show ?thesis by (simp add: matchAndVerify_def matchAndVerify_run_search_error)
next
  case (Inr matches)
  with assms have ne: "matches \<noteq> []" by (simp add: matching_fails_def)
  note run = matchAndVerify_run_verified [OF Inr ne]
  from assms Inr ne have
    "(match_index (verifyMatch svc d matches) = None \<and> r_confidence (verifyMatch svc d matches) = 0) \<or>
     (\<exists>i. match_index (verifyMatch svc d matches) = Some i \<and> \<not> (0 \<le> i \<and> nat i < length matches))"
    by (auto simp: matching_fails_def verifyMatch_def split: sum.splits option.splits)
  then show ?thesis
    using run by (auto simp: matchAndVerify_def no_match_def)
qed

lemma E_searchAll_down:
  "searchAll svc_E (js ''Allahu la ilaha illa huwa down'') 0.3 5 = Inl (ServiceError (js ''DependencyUnavailable''))"
  by (simp add: searchAll_def svc_E_def ex_svc_def)

lemma E_searchAll_up:
  "searchAll svc_E (js ''Allahu la ilaha illa huwa Ayat al-Kursi'') 0.3 5 = Inr [ex_match]"
  by (simp add: searchAll_def svc_E_def ex_svc_def ex_match_def js_def)

lemma E_verifyMatch:
  "verifyMatch svc_E d ms = \<lparr>match_index = Some 0, r_confidence = 0.8, reasoning = []\<rparr>"
  by (simp add: verifyMatch_def svc_E_def ex_svc_def falsy_def js_def)

lemma E_query_up: "corrected_text ex_detection @ js '' '' @ d_context ex_detection = js ''Allahu la ilaha illa huwa Ayat al-Kursi''"
  by (simp add: ex_detection_def js_def)

lemma E_query_down: "corrected_text ex_unlucky @ js '' '' @ d_context ex_unlucky = js ''Allahu la ilaha illa huwa down''"
  by (simp add: ex_unlucky_def ex_detection_def js_def)

lemma E_up: "matchAndVerify svc_E ex_detection = ex_verified"
  using E_searchAll_up
  by (simp add: matchAndVerify_def matchAndVerify_run_verified [of svc_E ex_detection "[ex_match]"]
        E_query_up E_verifyMatch ex_reference_id ex_verified_def)

text \<open>
  C7: \<open>matchAndVerify\<close> returns a Verified Match for every candidate (it is a total
  function: no error leaves it). The results of the verification loop are those
  of the candidates one by one, in order, so no candidate affects another; for
  a candidate on which the search, the verification call or the parsing of its
  reply fails, the result is no corpus entry, confidence 0; and a run whose
  database writes succeed returns its result whatever the searches and the
  models did.
\<close>

theorem matching_failure_contained:
  "length (verify_all svc ds) = length ds \<and>
   (\<forall>i < length ds.
      verify_all svc ds ! i = matchAndVerify svc (ds ! i) \<and>
      (matching_fails svc (ds ! i) \<longrightarrow>
         vmatch (verify_all svc ds ! i) = None \<and> confidence (verify_all svc ds ! i) = 0 \<and>
         reference_id (verify_all svc ds ! i) = None \<and> detected (verify_all svc ds ! i) = ds ! i)) \<and>
   ((\<forall>w. db svc w = None) \<longrightarrow>
      outcome (processTranscript svc tid text) =
        Inr (annotate svc tid text (verify_all svc (detect_all svc text))))"
proof -
  have "outcome (processTranscript svc tid text) =
        Inr (annotate svc tid text (verify_all svc (detect_all svc text)))"
    if "\<forall>w. db svc w = None"
    using that by (simp add: processTranscript_def Let_def)
  then show ?thesis
    by (auto simp: verify_all_def matching_fails_no_match no_match_def)
qed

lemma E_detectReferences: "detectReferences svc_E c = [ex_unlucky, ex_detection]"
  by (simp add: detectReferences_def svc_E_def ex_svc_def falsy_def js_def)

lemma E_detect_all: "detect_all svc_E ex_text = [ex_unlucky, ex_detection]"
  by (simp add: detect_all_def ex_chunks detect_step_def E_detectReferences rebase_0)

text \<open>
  The theorem of C7 at Scenario E: of three candidates the second meets an
  embedding service that is down; it gets no match and the other two are
  verified as usual. In the run on Scenario A's document the first of two
  candidates meets it, and the run returns.
\<close>

theorem matching_failure_contained_witness:
  "(1::nat) < length [ex_detection, ex_unlucky, ex_detection] \<and>
   matching_fails svc_E ([ex_detection, ex_unlucky, ex_detection] ! 1) \<and>
   vmatch (verify_all svc_E [ex_detection, ex_unlucky, ex_detection] ! 1) = None \<and>
   confidence (verify_all svc_E [ex_detection, ex_unlucky, ex_detection] ! 1) = 0 \<and>
   verify_all svc_E [ex_detection, ex_unlucky, ex_detection] ! 0 = ex_verified \<and>
   verify_all svc_E [ex_detection, ex_unlucky, ex_detection] ! 2 = ex_verified \<and>
   verify_all svc_E (detect_all svc_E ex_text) = [no_match ex_unlucky, ex_verified] \<and>
   outcome (processTranscript svc_E (js ''t1'') ex_text) =
     Inr (annotate svc_E (js ''t1'') ex_text [no_match ex_unlucky, ex_verified])"
proof -
  let ?ds = "[ex_detection, ex_unlucky, ex_detection]"
  have 1: "(1::nat) < length ?ds" by simp
  have f: "matching_fails svc_E (?ds ! 1)"
    by (simp add: matching_fails_def E_query_down E_searchAll_down)
  have u: "verify_all svc_E ?ds ! 0 = ex_verified" "verify_all svc_E ?ds ! 2 = ex_verified"
    by (simp_all add: verify_all_def E_up)
  have d: "\<forall>w. db svc_E w = None"
    by (simp add: svc_E_def ex_svc_def)
  have "matching_fails svc_E ex_unlucky"
    using f by simp
  then have v: "verify_all svc_E (detect_all svc_E ex_text) = [no_match ex_unlucky, ex_verified]"
    by (simp add: E_detect_all verify_all_def E_up matching_fails_no_match)
  from matching_failure_contained [of svc_E ?ds "js ''t1''" ex_text] f 1 d
  have "vmatch (verify_all svc_E ?ds ! 1) = None" "confidence (verify_all svc_E ?ds ! 1) = 0"
    "outcome (processTranscript svc_E (js ''t1'') ex_text) =
       Inr (annotate svc_E (js ''t1'') ex_text (verify_all svc_E (detect_all svc_E ex_text)))"
    by blast+
  with 1 f u v show ?thesis by simp
qed

section \<open>Chunking: theorems\<close>

lemma dropWhile_shorter:
  "s \<noteq> [] \<Longrightarrow> P (hd s) \<Longrightarrow> length (dropWhile P s) < length s"
  by (cases s) (auto simp: less_Suc_eq_le length_dropWhile_le)

lemma length_trim_le: "length (trim s) \<le> length (dropWhile is_space s)"
  by (simp add: trim_def) (metis length_dropWhile_le length_rev)

lemma trim_fixed_trimmed:
  assumes "trim p = p" and "p \<noteq> []"
  shows "trimmed p"
proof -
  have h: "\<not> is_space (hd p)"
  proof
    assume "is_space (hd p)"
    with assms(2) have "length (dropWhile is_space p) < length p" by (rule dropWhile_shorter)
    with length_trim_le [of p] assms(1) show False by simp
  qed
  then have d: "dropWhile is_space p = p" using assms(2) by (cases p) auto
  have l: "\<not> is_space (last p)"
  proof
    assume "is_space (last p)"
    then have "is_space (hd (rev p))" using assms(2) by (simp add: hd_rev)
    with assms(2) have "length (dropWhile is_space (rev p)) < length (rev p)"
      by (intro dropWhile_shorter) auto
    with assms(1) d show False by (simp add: trim_def) (metis length_rev less_irrefl)
  qed
  from h l assms(2) show ?thesis by (simp add: trimmed_def)
qed

lemma trimmed_trim:
  assumes "trimmed p"
  shows "trim p = p"
proof -
  from assms have d: "dropWhile is_space p = p" by (cases p) (auto simp: trimmed_def)
  from assms have "rev p \<noteq> []" "\<not> is_space (hd (rev p))" by (auto simp: trimmed_def hd_rev)
  then have "dropWhile is_space (rev p) = rev p" by (cases "rev p") auto
  with d show ?thesis by (simp add: trim_def)
qed

lemma trimmed_append:
  "trimmed a \<Longrightarrow> trimmed b \<Longrightarrow> trimmed (a @ s @ b)"
  by (auto simp: trimmed_def)

lemma join_paragraphs_Cons:
  "join_paragraphs (c # cs) = (if cs = [] then c else c @ para_sep @ join_paragraphs cs)"
  by (cases cs) auto

lemma join_paragraphs_merge:
  "join_paragraphs (xs @ (a @ para_sep @ b) # rest) = join_paragraphs (xs @ a # b # rest)"
  by (induction xs) (auto simp: join_paragraphs_Cons)

lemma paragraph_step_pushed:
  assumes p: "trimmed p" "int (length p) \<le> maxChunkSize"
    and cur: "cur = [] \<or> trimmed cur"
  shows "\<exists>chunks' cur'. paragraph_step maxChunkSize p (chunks, cur) = (chunks', cur') \<and> trimmed cur' \<and>
           (\<forall>rest. join_paragraphs (pushed (chunks', cur') @ rest) =
                   join_paragraphs (pushed (chunks, cur) @ p # rest))"
proof (cases "int (length cur + length p) > maxChunkSize")
  case True
  with p(2) have ne: "cur \<noteq> []" by auto
  from True p(2) ne have "paragraph_step maxChunkSize p (chunks, cur) = (chunks @ [trim cur], p)"
    by (simp add: paragraph_step_def)
  moreover have "pushed (chunks @ [trim cur], p) = pushed (chunks, cur) @ [p]"
    using ne p(1) by (simp add: pushed_def trimmed_trim) (simp add: trimmed_def)
  ultimately show ?thesis using p(1) by simp
next
  case False
  show ?thesis
  proof (cases "cur = []")
    case True
    with False have "paragraph_step maxChunkSize p (chunks, cur) = (chunks, p)"
      by (simp add: paragraph_step_def)
    moreover have "pushed (chunks, p) = pushed (chunks, cur) @ [p]"
      using True p(1) by (simp add: pushed_def trimmed_trim) (simp add: trimmed_def)
    ultimately show ?thesis using p(1) by simp
  next
    case ne: False
    with cur have tc: "trimmed cur" by simp
    from False ne have s: "paragraph_step maxChunkSize p (chunks, cur) = (chunks, cur @ para_sep @ p)"
      by (simp add: paragraph_step_def)
    have t: "trimmed (cur @ para_sep @ p)" using tc p(1) by (rule trimmed_append)
    have "pushed (chunks, cur @ para_sep @ p) = chunks @ [cur @ para_sep @ p]"
      using t by (simp add: pushed_def trimmed_trim) (simp add: para_sep_def)
    moreover have "pushed (chunks, cur) = chunks @ [cur]"
      using ne tc by (simp add: pushed_def trimmed_trim)
    ultimately have "\<forall>rest. join_paragraphs (pushed (chunks, cur @ para_sep @ p) @ rest) =
                   join_paragraphs (pushed (chunks, cur) @ p # rest)"
      by (simp add: join_paragraphs_merge)
    with s t show ?thesis by simp
  qed
qed

lemma fold_paragraph_step_pushed:
  assumes "\<forall>p \<in> set ps. trimmed p \<and> int (length p) \<le> maxChunkSize"
    and "cur = [] \<or> trimmed cur"
  shows "join_paragraphs (pushed (fold (paragraph_step maxChunkSize) ps (chunks, cur))) =
         join_paragraphs (pushed (chunks, cur) @ ps)"
  using assms
proof (induction ps arbitrary: chunks cur)
  case Nil
  then show ?case by simp
next
  case (Cons p ps)
  from Cons.prems have p: "trimmed p" "int (length p) \<le> maxChunkSize" by auto
  from paragraph_step_pushed [OF p Cons.prems(2), of chunks] obtain chunks' cur' where
    s: "paragraph_step maxChunkSize p (chunks, cur) = (chunks', cur')" and t: "trimmed cur'"
    and j: "\<forall>rest. join_paragraphs (pushed (chunks', cur') @ rest) =
                   join_paragraphs (pushed (chunks, cur) @ p # rest)"
    by blast
  from Cons.prems have "\<forall>p \<in> set ps. trimmed p \<and> int (length p) \<le> maxChunkSize" by simp
  from Cons.IH [OF this, of cur' chunks'] t
  have "join_paragraphs (pushed (fold (paragraph_step maxChunkSize) ps (chunks', cur'))) =
         join_paragraphs (pushed (chunks', cur') @ ps)" by simp
  with s j show ?case by simp
qed

lemma splitIntoChunks_pushed:
  "splitIntoChunks text maxChunkSize =
     pushed (fold (paragraph_step maxChunkSize) (split_paragraphs text) ([], []))"
  by (simp add: splitIntoChunks_def pushed_def split: prod.split)

lemma chunk_offsets_shift:
  "i < length cs \<Longrightarrow> chunk_offsets off cs ! i = off + chunk_offsets 0 cs ! i"
proof (induction cs arbitrary: off i)
  case Nil
  then show ?case by simp
next
  case (Cons c cs)
  show ?case
  proof (cases i)
    case 0
    then show ?thesis by simp
  next
    case (Suc j)
    with Cons.prems have j: "j < length cs" by simp
    from Cons.IH [OF j, of "off + length c + 2"] Cons.IH [OF j, of "0 + length c + 2"] Suc
    show ?thesis by simp
  qed
qed

lemma chunk_at_offset:
  "i < length cs \<Longrightarrow>
   take (length (cs ! i)) (drop (chunk_offsets 0 cs ! i) (join_paragraphs cs)) = cs ! i"
proof (induction cs arbitrary: i)
  case Nil
  then show ?case by simp
next
  case (Cons c cs)
  show ?case
  proof (cases i)
    case 0
    then show ?thesis by (simp add: join_paragraphs_Cons)
  next
    case (Suc j)
    with Cons.prems have j: "j < length cs" by simp
    then have ne: "cs \<noteq> []" by auto
    have o: "chunk_offsets 0 (c # cs) ! i = length c + 2 + chunk_offsets 0 cs ! j"
      using Suc chunk_offsets_shift [OF j, of "0 + length c + 2"] by simp
    have "drop (length c + 2 + chunk_offsets 0 cs ! j) (join_paragraphs (c # cs)) =
          drop (chunk_offsets 0 cs ! j) (join_paragraphs cs)"
      using ne by (simp add: join_paragraphs_Cons para_sep_def)
    with Cons.IH [OF j] o Suc show ?thesis by simp
  qed
qed

text \<open>
  C6 (as the code has it): when the paragraph split loses nothing (the
  paragraphs joined by two line feeds are the text again) and no paragraph is
  empty, starts or ends with white space, or is longer than the limit, the
  chunks joined by two line feeds are the text again, and every chunk stands in
  the text at the running offset that the orchestrator computes for it (the sum
  of length plus 2 over the chunks before it).
\<close>

theorem chunks_reconstruct_text:
  assumes "join_paragraphs (split_paragraphs text) = text"
    and "\<forall>p \<in> set (split_paragraphs text). p \<noteq> [] \<and> trim p = p \<and> int (length p) \<le> maxChunkSize"
  shows "join_paragraphs (splitIntoChunks text maxChunkSize) = text \<and>
         (\<forall>i < length (splitIntoChunks text maxChunkSize).
            take (length (splitIntoChunks text maxChunkSize ! i))
              (drop (chunk_offsets 0 (splitIntoChunks text maxChunkSize) ! i) text) =
            splitIntoChunks text maxChunkSize ! i)"
proof -
  from assms(2) have "\<forall>p \<in> set (split_paragraphs text). trimmed p \<and> int (length p) \<le> maxChunkSize"
    by (auto intro: trim_fixed_trimmed)
  from fold_paragraph_step_pushed [OF this, of "[]" "[]"]
  have j: "join_paragraphs (splitIntoChunks text maxChunkSize) = text"
    using assms(1) by (simp add: splitIntoChunks_pushed) (simp add: pushed_def)
  from chunk_at_offset [of _ "splitIntoChunks text maxChunkSize"] j show ?thesis by simp
qed

lemma ex_split_paragraphs: "split_paragraphs ex_paragraphs = [js ''ab'', js ''cd'', js ''ef'']"
  by (simp add: ex_paragraphs_def para_sep_def js_def)

lemma ex_paragraph_chunks: "splitIntoChunks ex_paragraphs 5 = [js ''ab'' @ para_sep @ js ''cd'', js ''ef'']"
  by (simp add: splitIntoChunks_def ex_split_paragraphs paragraph_step_def)
     (simp add: js_def para_sep_def trim_def is_space_def)

text \<open>
  The theorem of C6 at three paragraphs of two letters with limit 5: two chunks,
  at offsets 0 and 8.
\<close>

theorem chunks_reconstruct_text_witness:
  "splitIntoChunks ex_paragraphs 5 = [js ''ab'' @ para_sep @ js ''cd'', js ''ef''] \<and>
   join_paragraphs (splitIntoChunks ex_paragraphs 5) = ex_paragraphs \<and>
   chunk_offsets 0 (splitIntoChunks ex_paragraphs 5) = [0, 8] \<and>
   take 2 (drop 8 ex_paragraphs) = js ''ef''"
proof -
  have 1: "join_paragraphs (split_paragraphs ex_paragraphs) = ex_paragraphs"
    by (simp add: ex_split_paragraphs) (simp add: ex_paragraphs_def)
  have 2: "\<forall>p \<in> set (split_paragraphs ex_paragraphs). p \<noteq> [] \<and> trim p = p \<and> int (length p) \<le> 5"
    by (simp add: ex_split_paragraphs) (simp add: js_def trim_def is_space_def)
  have o: "chunk_offsets 0 (splitIntoChunks ex_paragraphs 5) = [0, 8]"
    by (simp add: ex_paragraph_chunks) (simp add: js_def para_sep_def)
  have l: "(1::nat) < length (splitIntoChunks ex_paragraphs 5)"
    "length (splitIntoChunks ex_paragraphs 5 ! 1) = 2" "splitIntoChunks ex_paragraphs 5 ! 1 = js ''ef''"
    by (simp_all add: ex_paragraph_chunks) (simp add: js_def)
  from chunks_reconstruct_text [OF 1 2] l o
  have "join_paragraphs (splitIntoChunks ex_paragraphs 5) = ex_paragraphs"
    "take 2 (drop 8 ex_paragraphs) = js ''ef''"
    by (simp, metis nth_Cons_0 nth_Cons_Suc One_nat_def)
  with o ex_paragraph_chunks show ?thesis by simp
qed

text \<open>
  C6 as stated fails: with three line feeds between \<open>x\<close> and \<open>y\<close> and limit 1 the
  chunks are \<open>x\<close> and \<open>y\<close>; joined by two line feeds they are one character short
  of the text, and the second chunk is at offset 4 of the text, not at the
  offset 3 that the orchestrator computes.
\<close>

theorem chunks_lose_newline:
  "splitIntoChunks ex_three_newlines 1 = [[0x78], [0x79]] \<and>
   join_paragraphs (splitIntoChunks ex_three_newlines 1) = [0x78, 0x0A, 0x0A, 0x79] \<and>
   join_paragraphs (splitIntoChunks ex_three_newlines 1) \<noteq> ex_three_newlines \<and>
   chunk_offsets 0 (splitIntoChunks ex_three_newlines 1) = [0, 3] \<and>
   take 1 (drop 3 ex_three_newlines) \<noteq> splitIntoChunks ex_three_newlines 1 ! 1 \<and>
   take 1 (drop 4 ex_three_newlines) = splitIntoChunks ex_three_newlines 1 ! 1"
  by (simp add: splitIntoChunks_def ex_three_newlines_def paragraph_step_def trim_def is_space_def para_sep_def)

end
